theory Spec2Isabelle
  imports
    Complex_Main
    "HOL-Library.Multiset"
    "HOL-Library.Char_ord"
    "HOL-Library.List_Lexorder"
    "HOL-Library.Product_Lexorder"
begin

section \<open>The hotel booking engine of \<^verbatim>\<open>hotel.py\<close>\<close>

text \<open>
  The program keeps two SQLite tables, \<^verbatim>\<open>rooms\<close> and \<^verbatim>\<open>bookings\<close>, and every
  operation opens its own connection, runs one or two statements and commits.
  The model keeps the two tables as lists in rowid order and passes the database
  explicitly. Text columns are \<open>string\<close>s; SQLite compares text with the
  \<^verbatim>\<open>BINARY\<close> collation, which is the lexicographic order on character codes that
  \<open>HOL-Library.List_Lexorder\<close> over \<open>HOL-Library.Char_ord\<close> gives to \<open>string\<close>.
  The clock (\<^verbatim>\<open>datetime.utcnow().isoformat()\<close>) is an argument \<open>now\<close> of the
  operations that read it.
\<close>

subsection \<open>Tables\<close>

text \<open>
  \<^verbatim>\<open>rooms(id, room_type, room_number, price)\<close> and
  \<^verbatim>\<open>bookings(id, room_id, guest_name, check_in, check_out, status, created_at,
  cancelled_at)\<close>. The two \<^verbatim>\<open>id\<close> columns are \<open>r_id\<close> and \<open>b_id\<close> here
  (\<open>id\<close> is the identity function of HOL). Identifiers are SQLite \<^verbatim>\<open>INTEGER\<close>s,
  taken as mathematical integers. \<^verbatim>\<open>cancelled_at\<close> is the only nullable column.
\<close>

record room =
  r_id :: int
  room_type :: string
  room_number :: string
  price :: real

record booking =
  b_id :: int
  room_id :: int
  guest_name :: string
  check_in :: string
  check_out :: string
  status :: string
  created_at :: string
  cancelled_at :: "string option"

record db =
  rooms :: "room list"
  bookings :: "booking list"

text \<open>The rows that \<^verbatim>\<open>init_db\<close> inserts into an empty \<^verbatim>\<open>rooms\<close> table; the
  \<^verbatim>\<open>AUTOINCREMENT\<close> key numbers them from 1.\<close>

definition seed_rooms :: "room list" where
  "seed_rooms =
    [\<lparr>r_id = 1, room_type = ''Single'', room_number = ''S101'', price = 1500\<rparr>,
     \<lparr>r_id = 2, room_type = ''Single'', room_number = ''S102'', price = 1500\<rparr>,
     \<lparr>r_id = 3, room_type = ''Double'', room_number = ''D201'', price = 2500\<rparr>,
     \<lparr>r_id = 4, room_type = ''Double'', room_number = ''D202'', price = 2500\<rparr>,
     \<lparr>r_id = 5, room_type = ''Deluxe'', room_number = ''L301'', price = 4500\<rparr>]"

definition init_db :: db where
  "init_db = \<lparr>rooms = seed_rooms, bookings = []\<rparr>"

subsection \<open>Parsing dates\<close>

text \<open>
  \<^verbatim>\<open>parse_date\<close> is \<^verbatim>\<open>datetime.strptime(date_str, "%Y-%m-%d").date()\<close>. The
  standard library turns the format into the regular expression
  \<^verbatim>\<open>(\d\d\d\d)-(1[0-2]|0[1-9]|[1-9])-(3[0-1]|[1-2]\d|0[1-9]|[1-9]| [1-9])\<close>,
  matches it at the start of the string, rejects the string when characters remain
  after the match, and then builds a \<^verbatim>\<open>date\<close>, which rejects year 0 and a day
  beyond the end of the month. Every failure is a \<^verbatim>\<open>ValueError\<close>, here \<open>None\<close>.
  A \<^verbatim>\<open>date\<close> is its triple (year, month, day), compared lexicographically.
  A \<open>string\<close> is a list of 8-bit characters: the model covers the Python
  strings whose code points lie below 256, and among those characters \<^verbatim>\<open>\d\<close>
  matches the ASCII digits 0 to 9 and no other. \<^verbatim>\<open>strptime\<close> also accepts the
  decimal digits of other scripts; strings with such digits are outside this type, and
  where a statement below needs zero-padded dates it asks for ASCII digits.
\<close>

type_synonym date = "nat \<times> nat \<times> nat"

definition is_digit :: "char \<Rightarrow> bool" where
  "is_digit c \<longleftrightarrow> CHR ''0'' \<le> c \<and> c \<le> CHR ''9''"

definition digit_val :: "char \<Rightarrow> nat" where
  "digit_val c = of_char c - 48"

definition in_range :: "char \<Rightarrow> char \<Rightarrow> char \<Rightarrow> bool" where
  "in_range lo hi c \<longleftrightarrow> lo \<le> c \<and> c \<le> hi"

text \<open>The group \<^verbatim>\<open>%Y\<close>: exactly four digits.\<close>

fun year_group :: "string \<Rightarrow> (nat \<times> string) option" where
  "year_group (a # b # c # d # rest) =
     (if is_digit a \<and> is_digit b \<and> is_digit c \<and> is_digit d
      then Some (1000 * digit_val a + 100 * digit_val b + 10 * digit_val c + digit_val d, rest)
      else None)"
| "year_group _ = None"

text \<open>The groups \<^verbatim>\<open>%m\<close> and \<^verbatim>\<open>%d\<close>: every way an alternative matches a
  prefix, in the order the regular expression tries them, each with the rest of the
  string.\<close>

definition two_chars :: "(char \<Rightarrow> bool) \<Rightarrow> (char \<Rightarrow> bool) \<Rightarrow> string \<Rightarrow> (nat \<times> string) list" where
  "two_chars p q s =
     (case s of
        a # b # rest \<Rightarrow> if p a \<and> q b then [(10 * digit_val a + digit_val b, rest)] else []
      | _ \<Rightarrow> [])"

definition one_char :: "(char \<Rightarrow> bool) \<Rightarrow> string \<Rightarrow> (nat \<times> string) list" where
  "one_char p s = (case s of a # rest \<Rightarrow> if p a then [(digit_val a, rest)] else [] | [] \<Rightarrow> [])"

definition space_digit :: "string \<Rightarrow> (nat \<times> string) list" where
  "space_digit s =
     (case s of
        a # b # rest \<Rightarrow>
          if a = CHR '' '' \<and> in_range CHR ''1'' CHR ''9'' b then [(digit_val b, rest)] else []
      | _ \<Rightarrow> [])"

definition month_group :: "string \<Rightarrow> (nat \<times> string) list" where
  "month_group s =
     two_chars (\<lambda>c. c = CHR ''1'') (in_range CHR ''0'' CHR ''2'') s @
     two_chars (\<lambda>c. c = CHR ''0'') (in_range CHR ''1'' CHR ''9'') s @
     one_char (in_range CHR ''1'' CHR ''9'') s"

definition day_group :: "string \<Rightarrow> (nat \<times> string) list" where
  "day_group s =
     two_chars (\<lambda>c. c = CHR ''3'') (in_range CHR ''0'' CHR ''1'') s @
     two_chars (in_range CHR ''1'' CHR ''2'') is_digit s @
     two_chars (\<lambda>c. c = CHR ''0'') (in_range CHR ''1'' CHR ''9'') s @
     one_char (in_range CHR ''1'' CHR ''9'') s @
     space_digit s"

definition dash :: "string \<Rightarrow> string list" where
  "dash s = (case s of a # rest \<Rightarrow> if a = CHR ''-'' then [rest] else [] | [] \<Rightarrow> [])"

text \<open>All matches of the whole expression in priority order; \<^verbatim>\<open>re.match\<close> returns the
  first.\<close>

definition ymd_matches :: "string \<Rightarrow> (date \<times> string) list" where
  "ymd_matches s =
     (case year_group s of
        None \<Rightarrow> []
      | Some (y, s1) \<Rightarrow>
          concat (map (\<lambda>s2.
            concat (map (\<lambda>(m, s3).
              concat (map (\<lambda>s4.
                map (\<lambda>(d, s5). ((y, m, d), s5)) (day_group s4)) (dash s3))) (month_group s2)))
            (dash s1)))"

definition leap_year :: "nat \<Rightarrow> bool" where
  "leap_year y \<longleftrightarrow> y mod 4 = 0 \<and> (y mod 100 \<noteq> 0 \<or> y mod 400 = 0)"

definition days_in_month :: "nat \<Rightarrow> nat \<Rightarrow> nat" where
  "days_in_month y m =
     (if m = 2 then (if leap_year y then 29 else 28)
      else if m = 4 \<or> m = 6 \<or> m = 9 \<or> m = 11 then 30 else 31)"

definition parse_date :: "string \<Rightarrow> date option" where
  "parse_date date_str =
     (case ymd_matches date_str of
        [] \<Rightarrow> None
      | ((y, m, d), rest) # _ \<Rightarrow>
          if rest \<noteq> [] then None
          else if y < 1 \<or> days_in_month y m < d then None
          else Some (y, m, d))"

subsection \<open>Availability\<close>

text \<open>
  The subquery of \<^verbatim>\<open>available_rooms\<close>:
  \<^verbatim>\<open>status='active' AND NOT (check_out <= ? OR check_in >= ?)\<close>, with the two
  parameters bound to the strings the caller passed. Both sides are text.
\<close>

definition blocking :: "string \<Rightarrow> string \<Rightarrow> booking \<Rightarrow> bool" where
  "blocking ci co b \<longleftrightarrow>
     status b = ''active'' \<and> \<not> (check_out b \<le> ci \<or> check_in b \<ge> co)"

text \<open>
  \<^verbatim>\<open>SELECT * FROM rooms WHERE room_type = ? AND id NOT IN (...)\<close>. The statement has
  no \<^verbatim>\<open>ORDER BY\<close>; SQLite answers it by a scan of the table in rowid order, which is
  the order of the list \<open>rooms\<close>.
\<close>

definition available_rooms :: "db \<Rightarrow> string \<Rightarrow> string \<Rightarrow> string \<Rightarrow> room list" where
  "available_rooms s rt ci co =
     filter (\<lambda>r. room_type r = rt \<and>
                 r_id r \<notin> set (map room_id (filter (blocking ci co) (bookings s))))
       (rooms s)"

subsection \<open>The engine\<close>

text \<open>
  The two \<^verbatim>\<open>ValueError\<close>s of \<^verbatim>\<open>create_booking\<close>, the two of
  \<^verbatim>\<open>cancel_booking\<close> and the one that \<^verbatim>\<open>strptime\<close> raises, named as the
  specification names them; and the \<^verbatim>\<open>OverflowError\<close> that the \<^verbatim>\<open>sqlite3\<close>
  module raises when it binds an integer parameter that does not fit a signed 64-bit
  \<^verbatim>\<open>INTEGER\<close>.
\<close>

datatype error =
  InvalidDate | InvalidRange | NoAvailability | NotFound | AlreadyCancelled | Overflow

definition sqlite_int :: "int \<Rightarrow> bool" where
  "sqlite_int i \<longleftrightarrow> - (2 ^ 63) \<le> i \<and> i < 2 ^ 63"

text \<open>The key \<^verbatim>\<open>AUTOINCREMENT\<close> gives to the next row: one more than the largest
  key of the table (rows are never deleted), 1 in an empty table.\<close>

definition next_booking_id :: "db \<Rightarrow> int" where
  "next_booking_id s = fold max (map b_id (bookings s)) 0 + 1"

text \<open>
  Every operation returns its outcome together with the database it leaves, so that
  an operation that raises can be seen to have written nothing.
\<close>

definition create_booking ::
  "string \<Rightarrow> db \<Rightarrow> string \<Rightarrow> string \<Rightarrow> string \<Rightarrow> string \<Rightarrow> (error + int \<times> room) \<times> db" where
  "create_booking now s guest rt ci_str co_str =
     (case parse_date ci_str of
        None \<Rightarrow> (Inl InvalidDate, s)
      | Some ci \<Rightarrow>
          (case parse_date co_str of
             None \<Rightarrow> (Inl InvalidDate, s)
           | Some co \<Rightarrow>
               if co \<le> ci then (Inl InvalidRange, s)
               else
                 (case available_rooms s rt ci_str co_str of
                    [] \<Rightarrow> (Inl NoAvailability, s)
                  | room # _ \<Rightarrow>
                      (Inr (next_booking_id s, room),
                       s\<lparr>bookings := bookings s @
                           [\<lparr>b_id = next_booking_id s, room_id = r_id room,
                             guest_name = guest, check_in = ci_str, check_out = co_str,
                             status = ''active'', created_at = now,
                             cancelled_at = None\<rparr>]\<rparr>))))"

text \<open>\<^verbatim>\<open>UPDATE bookings SET status=?, cancelled_at=? WHERE id=?\<close> on one row.\<close>

definition set_cancelled :: "string \<Rightarrow> int \<Rightarrow> booking \<Rightarrow> booking" where
  "set_cancelled now booking_id b =
     (if b_id b = booking_id then b\<lparr>status := ''cancelled'', cancelled_at := Some now\<rparr> else b)"

text \<open>
  \<^verbatim>\<open>booking_id\<close> is a Python integer, of any size (the console passes
  \<^verbatim>\<open>int(bid)\<close>). The \<^verbatim>\<open>SELECT\<close> of line 93 binds it as a parameter, and for a
  value outside 64 bits \<^verbatim>\<open>cur.execute\<close> raises before any row is looked up; the
  connection then rolls back and nothing was written.
\<close>

definition cancel_booking :: "string \<Rightarrow> db \<Rightarrow> int \<Rightarrow> (error + bool) \<times> db" where
  "cancel_booking now s booking_id =
     (if \<not> sqlite_int booking_id then (Inl Overflow, s)
      else
        (case find (\<lambda>b. b_id b = booking_id) (bookings s) of
           None \<Rightarrow> (Inl NotFound, s)
         | Some row \<Rightarrow>
             if status row = ''cancelled'' then (Inl AlreadyCancelled, s)
             else (Inr True, s\<lparr>bookings := map (set_cancelled now booking_id) (bookings s)\<rparr>)))"

subsection \<open>Listing\<close>

text \<open>
  A row of \<^verbatim>\<open>SELECT b.*, r.room_type, r.room_number, r.price FROM bookings b JOIN
  rooms r ON r.id = b.room_id\<close>: the booking with the three room columns.
\<close>

type_synonym booking_row = "booking \<times> string \<times> string \<times> real"

definition join_rooms :: "db \<Rightarrow> booking list \<Rightarrow> booking_row list" where
  "join_rooms s bs =
     concat (map (\<lambda>b. map (\<lambda>r. (b, room_type r, room_number r, price r))
                          (filter (\<lambda>r. r_id r = room_id b) (rooms s))) bs)"

text \<open>\<^verbatim>\<open>ORDER BY b.created_at DESC\<close>, on text. Rows with equal keys are left in
  table order here; SQL leaves their order open.\<close>

definition order_by_created_at_desc :: "booking_row list \<Rightarrow> booking_row list" where
  "order_by_created_at_desc xs = rev (sort_key (\<lambda>row. created_at (fst row)) (rev xs))"

text \<open>The argument \<^verbatim>\<open>status=None\<close> is tested by \<^verbatim>\<open>if status:\<close>, which takes
  \<^verbatim>\<open>None\<close> and the empty string alike as no filter.\<close>

definition list_bookings :: "db \<Rightarrow> string option \<Rightarrow> booking_row list" where
  "list_bookings s st =
     (case st of
        Some f \<Rightarrow>
          if f \<noteq> [] then
            order_by_created_at_desc (join_rooms s (filter (\<lambda>b. status b = f) (bookings s)))
          else order_by_created_at_desc (join_rooms s (bookings s))
      | None \<Rightarrow> order_by_created_at_desc (join_rooms s (bookings s)))"

subsection \<open>Sequences of operations\<close>

text \<open>
  The front ends call \<^verbatim>\<open>create_booking\<close> and \<^verbatim>\<open>cancel_booking\<close> one after
  the other and catch what they raise; each request carries the time at which it
  reads the clock.
\<close>

datatype request =
  Create string string string string string
| Cancel string int

fun step :: "db \<Rightarrow> request \<Rightarrow> db" where
  "step s (Create now guest rt ci co) = snd (create_booking now s guest rt ci co)"
| "step s (Cancel now booking_id) = snd (cancel_booking now s booking_id)"

definition run :: "db \<Rightarrow> request list \<Rightarrow> db" where
  "run s reqs = foldl step s reqs"

definition empty_ledger :: "room list \<Rightarrow> db" where
  "empty_ledger catalog = \<lparr>rooms = catalog, bookings = []\<rparr>"

subsection \<open>Stays as calendar intervals\<close>

text \<open>
  The stay of a booking is the half-open interval of calendar dates from the parsed
  \<^verbatim>\<open>check_in\<close> to the parsed \<^verbatim>\<open>check_out\<close>. Two half-open intervals of a linear
  order intersect when the later start lies before the earlier end.
\<close>

definition stay :: "booking \<Rightarrow> (date \<times> date) option" where
  "stay b =
     (case parse_date (check_in b) of
        None \<Rightarrow> None
      | Some a \<Rightarrow> (case parse_date (check_out b) of None \<Rightarrow> None | Some c \<Rightarrow> Some (a, c)))"

definition intersecting :: "date \<times> date \<Rightarrow> date \<times> date \<Rightarrow> bool" where
  "intersecting p q \<longleftrightarrow> max (fst p) (fst q) < min (snd p) (snd q)"

definition stays_overlap :: "booking \<Rightarrow> booking \<Rightarrow> bool" where
  "stays_overlap a b =
     (case stay a of
        None \<Rightarrow> False
      | Some p \<Rightarrow> (case stay b of None \<Rightarrow> False | Some q \<Rightarrow> intersecting p q))"

text \<open>Invariant I1 of the specification: no two active bookings of one room have
  intersecting stays.\<close>

definition no_double_booking :: "db \<Rightarrow> bool" where
  "no_double_booking s \<longleftrightarrow>
     (\<forall>a \<in> set (bookings s). \<forall>b \<in> set (bookings s).
        b_id a \<noteq> b_id b \<and> room_id a = room_id b \<and>
        status a = ''active'' \<and> status b = ''active'' \<longrightarrow> \<not> stays_overlap a b)"

text \<open>The same with the comparison the query makes: on the stored text.\<close>

definition text_disjoint :: "booking \<Rightarrow> booking \<Rightarrow> bool" where
  "text_disjoint a b \<longleftrightarrow> check_out a \<le> check_in b \<or> check_out b \<le> check_in a"

definition no_text_overlap :: "booking list \<Rightarrow> bool" where
  "no_text_overlap bs \<longleftrightarrow>
     (\<forall>a \<in> set bs. \<forall>b \<in> set bs.
        b_id a \<noteq> b_id b \<and> room_id a = room_id b \<and>
        status a = ''active'' \<and> status b = ''active'' \<longrightarrow> text_disjoint a b)"

text \<open>
  The availability of the specification (section 4.2), in its words: a booking
  occupies an interval of dates when it is active and its stay intersects the
  interval, and a room of the requested type is free for the interval when no booking
  on it occupies the interval. \<open>spec_free_rooms\<close> is written from the specification,
  on calendar dates, to be compared with \<^verbatim>\<open>available_rooms\<close>, which is written from
  the code.
\<close>

definition occupies :: "date \<times> date \<Rightarrow> booking \<Rightarrow> bool" where
  "occupies iv b \<longleftrightarrow>
     status b = ''active'' \<and> (case stay b of None \<Rightarrow> False | Some p \<Rightarrow> intersecting p iv)"

definition spec_free_rooms :: "db \<Rightarrow> string \<Rightarrow> date \<times> date \<Rightarrow> room list" where
  "spec_free_rooms s rt iv =
     filter (\<lambda>r. room_type r = rt \<and>
                 \<not> list_ex (\<lambda>b. room_id b = r_id r \<and> occupies iv b) (bookings s))
       (rooms s)"

text \<open>Invariant I2: the parsed check-out lies after the parsed check-in.\<close>

definition range_valid :: "booking \<Rightarrow> bool" where
  "range_valid b = (case stay b of None \<Rightarrow> False | Some (a, c) \<Rightarrow> a < c)"

subsection \<open>Zero-padded dates\<close>

text \<open>
  The form \<^verbatim>\<open>YYYY-MM-DD\<close> in ASCII digits with every field padded with zeros, the value such a
  string denotes, and the number that a string of digits denotes. On strings of this
  form the order of the text is the order of the dates; \<^verbatim>\<open>parse_date\<close> accepts
  other strings as well.
\<close>

fun iso_date :: "string \<Rightarrow> bool" where
  "iso_date [y1, y2, y3, y4, h1, m1, m2, h2, d1, d2] =
     (is_digit y1 \<and> is_digit y2 \<and> is_digit y3 \<and> is_digit y4 \<and> h1 = CHR ''-'' \<and>
      is_digit m1 \<and> is_digit m2 \<and> h2 = CHR ''-'' \<and> is_digit d1 \<and> is_digit d2)"
| "iso_date _ = False"

fun iso_value :: "string \<Rightarrow> date" where
  "iso_value [y1, y2, y3, y4, h1, m1, m2, h2, d1, d2] =
     (1000 * digit_val y1 + 100 * digit_val y2 + 10 * digit_val y3 + digit_val y4,
      10 * digit_val m1 + digit_val m2,
      10 * digit_val d1 + digit_val d2)"
| "iso_value _ = (0, 0, 0)"

fun digits_value :: "string \<Rightarrow> nat" where
  "digits_value [] = 0"
| "digits_value (c # cs) = digit_val c * 10 ^ length cs + digits_value cs"

fun iso_request :: "request \<Rightarrow> bool" where
  "iso_request (Create now guest rt ci co) = (iso_date ci \<and> iso_date co)"
| "iso_request (Cancel now booking_id) = True"

subsection \<open>The two transactions of an admission\<close>

text \<open>
  \<^verbatim>\<open>create_booking\<close> reads and writes through two connections: the checks and the
  query of \<^verbatim>\<open>available_rooms\<close> (lines 71 to 78) are done before the
  \<^verbatim>\<open>INSERT\<close> is begun and committed (lines 79 to 87), and no lock or constraint
  joins them. \<open>select_room\<close> is the first part, \<open>commit_booking\<close> the second on
  what the first returned. Two processes on one database file can each run their
  first part before either runs its second: \<open>racing\<close> is that schedule of two calls,
  each given as (now, guest, room type, check-in, check-out).
\<close>

definition select_room :: "db \<Rightarrow> string \<Rightarrow> string \<Rightarrow> string \<Rightarrow> error + room" where
  "select_room s rt ci_str co_str =
     (case parse_date ci_str of
        None \<Rightarrow> Inl InvalidDate
      | Some ci \<Rightarrow>
          (case parse_date co_str of
             None \<Rightarrow> Inl InvalidDate
           | Some co \<Rightarrow>
               if co \<le> ci then Inl InvalidRange
               else
                 (case available_rooms s rt ci_str co_str of
                    [] \<Rightarrow> Inl NoAvailability
                  | room # _ \<Rightarrow> Inr room)))"

definition commit_booking ::
  "string \<Rightarrow> db \<Rightarrow> string \<Rightarrow> string \<Rightarrow> string \<Rightarrow> error + room \<Rightarrow> (error + int \<times> room) \<times> db" where
  "commit_booking now s guest ci_str co_str choice =
     (case choice of
        Inl e \<Rightarrow> (Inl e, s)
      | Inr room \<Rightarrow>
          (Inr (next_booking_id s, room),
           s\<lparr>bookings := bookings s @
               [\<lparr>b_id = next_booking_id s, room_id = r_id room,
                 guest_name = guest, check_in = ci_str, check_out = co_str,
                 status = ''active'', created_at = now,
                 cancelled_at = None\<rparr>]\<rparr>))"

type_synonym admission = "string \<times> string \<times> string \<times> string \<times> string"

definition racing ::
  "db \<Rightarrow> admission \<Rightarrow> admission \<Rightarrow> (error + int \<times> room) \<times> (error + int \<times> room) \<times> db" where
  "racing s first second =
     (case first of (now1, guest1, rt1, ci1, co1) \<Rightarrow>
      case second of (now2, guest2, rt2, ci2, co2) \<Rightarrow>
        let choice1 = select_room s rt1 ci1 co1;
            choice2 = select_room s rt2 ci2 co2;
            done1 = commit_booking now1 s guest1 ci1 co1 choice1;
            done2 = commit_booking now2 (snd done1) guest2 ci2 co2 choice2
        in (fst done1, fst done2, snd done2))"

subsection \<open>A small ledger\<close>

text \<open>Two admissions on the seeded catalogue, and the cancellation of the first; the
  concrete inputs at which the theorems below are instantiated.\<close>

definition demo_requests :: "request list" where
  "demo_requests =
     [Create ''2024-01-01T09:00:00'' ''Ann'' ''Single'' ''2024-01-10'' ''2024-01-12'',
      Create ''2024-01-01T10:30:00.250000'' ''Bob'' ''Deluxe'' ''2024-01-10'' ''2024-01-15'']"

definition demo_db :: db where
  "demo_db = run (empty_ledger seed_rooms) demo_requests"

definition demo_booking_1 :: booking where
  "demo_booking_1 =
     \<lparr>b_id = 1, room_id = 1, guest_name = ''Ann'', check_in = ''2024-01-10'',
      check_out = ''2024-01-12'', status = ''active'', created_at = ''2024-01-01T09:00:00'',
      cancelled_at = None\<rparr>"

definition demo_booking_2 :: booking where
  "demo_booking_2 =
     \<lparr>b_id = 2, room_id = 5, guest_name = ''Bob'', check_in = ''2024-01-10'',
      check_out = ''2024-01-15'', status = ''active'',
      created_at = ''2024-01-01T10:30:00.250000'', cancelled_at = None\<rparr>"

definition demo_cancelled :: db where
  "demo_cancelled = snd (cancel_booking ''2024-01-02T08:00:00'' demo_db 1)"

definition room_S101 :: room where
  "room_S101 = \<lparr>r_id = 1, room_type = ''Single'', room_number = ''S101'', price = 1500\<rparr>"

definition room_S102 :: room where
  "room_S102 = \<lparr>r_id = 2, room_type = ''Single'', room_number = ''S102'', price = 1500\<rparr>"

definition room_L301 :: room where
  "room_L301 = \<lparr>r_id = 5, room_type = ''Deluxe'', room_number = ''L301'', price = 4500\<rparr>"

text \<open>Two requests for the one Deluxe room, the second with its dates written
  without padding, as \<^verbatim>\<open>strptime\<close> accepts them; the ledger after the first; and
  two calls for that room with zero-padded dates.\<close>

definition unpadded_requests :: "request list" where
  "unpadded_requests =
     [Create ''2024-01-01T09:00:00'' ''Ann'' ''Deluxe'' ''2024-01-10'' ''2024-01-15'',
      Create ''2024-01-01T09:05:00'' ''Bob'' ''Deluxe'' ''2024-1-12'' ''2024-1-14'']"

definition deluxe_booked :: db where
  "deluxe_booked =
     run init_db [Create ''2024-01-01T09:00:00'' ''Ann'' ''Deluxe'' ''2024-01-10'' ''2024-01-15'']"

text \<open>The Deluxe room booked from 5 January to 1 February, the dates written without
  padding.\<close>

definition unpadded_stored :: db where
  "unpadded_stored =
     run init_db [Create ''2024-01-01T09:00:00'' ''Ann'' ''Deluxe'' ''2024-1-5'' ''2024-2-1'']"

definition racing_first :: admission where
  "racing_first = (''2024-01-01T09:00:00'', ''Ann'', ''Deluxe'', ''2024-01-10'', ''2024-01-15'')"

definition racing_second :: admission where
  "racing_second =
     (''2024-01-01T09:00:00.000500'', ''Bob'', ''Deluxe'', ''2024-01-12'', ''2024-01-14'')"

text \<open>A ledger whose stored dates are all zero-padded, in ASCII digits.\<close>

definition iso_ledger :: "db \<Rightarrow> bool" where
  "iso_ledger s \<longleftrightarrow>
     (\<forall>b \<in> set (bookings s). iso_date (check_in b) \<and> iso_date (check_out b))"

text \<open>What holds of every ledger that the operations build: keys are unique, every
  booking refers to a room of the catalogue, has a valid range and one of the two
  statuses, and active bookings of one room are disjoint as the query compares them.\<close>

definition ledger_ok :: "db \<Rightarrow> bool" where
  "ledger_ok s \<longleftrightarrow>
     distinct (map b_id (bookings s)) \<and>
     (\<forall>b \<in> set (bookings s).
        room_id b \<in> r_id ` set (rooms s) \<and> range_valid b \<and>
        (status b = ''active'' \<or> status b = ''cancelled'')) \<and>
     no_text_overlap (bookings s)"

section \<open>Basic facts about the operations\<close>

lemma le_fold_max: "(a::int) \<le> fold max xs a"
proof (induction xs arbitrary: a)
  case Nil
  show ?case by simp
next
  case (Cons x xs)
  have "a \<le> max x a" by simp
  also have "\<dots> \<le> fold max xs (max x a)" by (rule Cons.IH)
  finally show ?case by simp
qed

lemma mem_le_fold_max: "x \<in> set xs \<Longrightarrow> (x::int) \<le> fold max xs a"
proof (induction xs arbitrary: a)
  case Nil
  then show ?case by simp
next
  case (Cons y ys)
  show ?case
  proof (cases "x = y")
    case True
    have "y \<le> max y a" by simp
    also have "\<dots> \<le> fold max ys (max y a)" by (rule le_fold_max)
    finally show ?thesis using True by simp
  next
    case False
    with Cons.prems have "x \<in> set ys" by simp
    then show ?thesis using Cons.IH by simp
  qed
qed

lemma next_booking_id_fresh: "b \<in> set (bookings s) \<Longrightarrow> b_id b < next_booking_id s"
proof -
  assume "b \<in> set (bookings s)"
  then have "b_id b \<in> set (map b_id (bookings s))" by simp
  then have "b_id b \<le> fold max (map b_id (bookings s)) 0" by (rule mem_le_fold_max)
  then show ?thesis by (simp add: next_booking_id_def)
qed

lemma create_booking_cases:
  "create_booking now s guest rt ci co =
     (if parse_date ci = None \<or> parse_date co = None then (Inl InvalidDate, s)
      else if the (parse_date co) \<le> the (parse_date ci) then (Inl InvalidRange, s)
      else if available_rooms s rt ci co = [] then (Inl NoAvailability, s)
      else (Inr (next_booking_id s, hd (available_rooms s rt ci co)),
            s\<lparr>bookings := bookings s @
               [\<lparr>b_id = next_booking_id s, room_id = r_id (hd (available_rooms s rt ci co)),
                 guest_name = guest, check_in = ci, check_out = co,
                 status = ''active'', created_at = now, cancelled_at = None\<rparr>]\<rparr>))"
  by (simp add: create_booking_def split: option.splits list.splits)

lemma find_map_preserved:
  assumes "\<And>b. P (f b) = P b"
  shows "find P (map f bs) = map_option f (find P bs)"
  using assms by (induction bs) simp_all

lemma find_set_cancelled:
  "find (\<lambda>b. b_id b = i) (map (set_cancelled now j) bs) =
     map_option (set_cancelled now j) (find (\<lambda>b. b_id b = i) bs)"
  by (rule find_map_preserved) (simp add: set_cancelled_def)

lemma find_None_iff_id: "find (\<lambda>b. b_id b = i) bs = None \<longleftrightarrow> i \<notin> b_id ` set bs"
  by (auto simp: find_None_iff)

lemma cancel_twice:
  assumes "cancel_booking now s i = (Inr True, s')"
  shows "cancel_booking now' s' i = (Inl AlreadyCancelled, s')"
proof -
  from assms have r: "sqlite_int i"
    by (auto simp: cancel_booking_def split: if_splits)
  from assms obtain row where row: "find (\<lambda>b. b_id b = i) (bookings s) = Some row"
    and s': "s' = s\<lparr>bookings := map (set_cancelled now i) (bookings s)\<rparr>"
    by (auto simp: cancel_booking_def split: option.splits if_splits)
  from row have "b_id row = i" by (auto simp: find_Some_iff)
  then have "status (set_cancelled now i row) = ''cancelled''" by (simp add: set_cancelled_def)
  moreover have "find (\<lambda>b. b_id b = i) (bookings s') = Some (set_cancelled now i row)"
    using row s' by (simp add: find_set_cancelled)
  ultimately show ?thesis using r by (simp add: cancel_booking_def)
qed

lemma step_bookings:
  "bookings (step s r) = bookings s
   \<or> (\<exists>now guest rt ci co room.
        r = Create now guest rt ci co \<and>
        (\<exists>a b. parse_date ci = Some a \<and> parse_date co = Some b \<and> a < b) \<and>
        available_rooms s rt ci co \<noteq> [] \<and> room = hd (available_rooms s rt ci co) \<and>
        bookings (step s r) = bookings s @
          [\<lparr>b_id = next_booking_id s, room_id = r_id room,
            guest_name = guest, check_in = ci, check_out = co,
            status = ''active'', created_at = now, cancelled_at = None\<rparr>])
   \<or> (\<exists>now i. r = Cancel now i \<and> bookings (step s r) = map (set_cancelled now i) (bookings s))"
proof (cases r)
  case (Create now guest rt ci co)
  then show ?thesis
    by (auto simp: create_booking_cases)
next
  case (Cancel now i)
  then show ?thesis
    by (auto simp: cancel_booking_def split: option.splits)
qed

lemma step_rooms: "rooms (step s r) = rooms s"
  by (cases r) (auto simp: create_booking_cases cancel_booking_def split: option.splits)

lemma run_rooms: "rooms (run s reqs) = rooms s"
  unfolding run_def by (induction reqs arbitrary: s) (simp_all add: step_rooms)

lemma run_Nil: "run s [] = s"
  by (simp add: run_def)

lemma run_snoc: "run s (reqs @ [r]) = step (run s reqs) r"
  by (simp add: run_def)

lemma run_append: "run s (xs @ ys) = run (run s xs) ys"
  by (simp add: run_def)

section \<open>Ledgers reached from the empty one\<close>

lemma step_keeps:
  assumes "i < length (bookings s)"
  shows "i < length (bookings (step s r)) \<and>
         b_id (bookings (step s r) ! i) = b_id (bookings s ! i) \<and>
         room_id (bookings (step s r) ! i) = room_id (bookings s ! i) \<and>
         check_in (bookings (step s r) ! i) = check_in (bookings s ! i) \<and>
         check_out (bookings (step s r) ! i) = check_out (bookings s ! i) \<and>
         (status (bookings s ! i) = ''cancelled'' \<longrightarrow>
            status (bookings (step s r) ! i) = ''cancelled'')"
  using step_bookings [of s r] assms
  by (auto simp: nth_append set_cancelled_def)

lemma run_keeps:
  assumes "i < length (bookings s)"
  shows "i < length (bookings (run s reqs)) \<and>
         b_id (bookings (run s reqs) ! i) = b_id (bookings s ! i) \<and>
         room_id (bookings (run s reqs) ! i) = room_id (bookings s ! i) \<and>
         check_in (bookings (run s reqs) ! i) = check_in (bookings s ! i) \<and>
         check_out (bookings (run s reqs) ! i) = check_out (bookings s ! i) \<and>
         (status (bookings s ! i) = ''cancelled'' \<longrightarrow>
            status (bookings (run s reqs) ! i) = ''cancelled'')"
proof (induction reqs rule: rev_induct)
  case Nil
  show ?case using assms by (simp add: run_Nil)
next
  case (snoc r reqs)
  then show ?case
    using step_keeps [of i "run s reqs" r] by (simp add: run_snoc)
qed

lemma run_invariant:
  assumes "P s" and "\<And>s r. P s \<Longrightarrow> P (step s r)"
  shows "P (run s reqs)"
proof (induction reqs rule: rev_induct)
  case Nil
  show ?case using assms(1) by (simp add: run_Nil)
next
  case (snoc r reqs)
  then show ?case by (simp add: run_snoc assms(2))
qed

lemma set_cancelled_b_id [simp]: "b_id (set_cancelled now i b) = b_id b"
  by (simp add: set_cancelled_def)

lemma set_cancelled_room_id [simp]: "room_id (set_cancelled now i b) = room_id b"
  by (simp add: set_cancelled_def)

lemma set_cancelled_check_in [simp]: "check_in (set_cancelled now i b) = check_in b"
  by (simp add: set_cancelled_def)

lemma set_cancelled_check_out [simp]: "check_out (set_cancelled now i b) = check_out b"
  by (simp add: set_cancelled_def)

lemma set_cancelled_status:
  "status (set_cancelled now i b) = status b \<or> status (set_cancelled now i b) = ''cancelled''"
  by (simp add: set_cancelled_def)

lemma set_cancelled_active:
  "status (set_cancelled now i b) = ''active'' \<Longrightarrow> set_cancelled now i b = b"
  by (simp add: set_cancelled_def split: if_splits)

lemma stay_set_cancelled [simp]: "stay (set_cancelled now i b) = stay b"
  by (simp add: stay_def split: option.splits)

lemma available_rooms_iff:
  "r \<in> set (available_rooms s rt ci co) \<longleftrightarrow>
     r \<in> set (rooms s) \<and> room_type r = rt \<and>
     (\<forall>b \<in> set (bookings s). room_id b = r_id r \<longrightarrow> \<not> blocking ci co b)"
  by (auto simp: available_rooms_def image_iff)

lemma hd_available_rooms:
  assumes "available_rooms s rt ci co \<noteq> []"
  shows "hd (available_rooms s rt ci co) \<in> set (rooms s)"
    and "room_type (hd (available_rooms s rt ci co)) = rt"
    and "\<forall>b \<in> set (bookings s).
           room_id b = r_id (hd (available_rooms s rt ci co)) \<longrightarrow> \<not> blocking ci co b"
proof -
  from assms have "hd (available_rooms s rt ci co) \<in> set (available_rooms s rt ci co)"
    by (rule hd_in_set)
  then have *: "hd (available_rooms s rt ci co) \<in> set (rooms s) \<and>
     room_type (hd (available_rooms s rt ci co)) = rt \<and>
     (\<forall>b \<in> set (bookings s).
        room_id b = r_id (hd (available_rooms s rt ci co)) \<longrightarrow> \<not> blocking ci co b)"
    by (rule iffD1 [OF available_rooms_iff])
  from * show "hd (available_rooms s rt ci co) \<in> set (rooms s)" by blast
  from * show "room_type (hd (available_rooms s rt ci co)) = rt" by blast
  from * show "\<forall>b \<in> set (bookings s).
           room_id b = r_id (hd (available_rooms s rt ci co)) \<longrightarrow> \<not> blocking ci co b"
    by blast
qed

lemma ledger_ok_empty: "ledger_ok (empty_ledger catalog)"
  by (simp add: ledger_ok_def empty_ledger_def no_text_overlap_def)

lemma range_valid_set_cancelled [simp]: "range_valid (set_cancelled now i b) = range_valid b"
  by (simp add: range_valid_def)

lemma no_text_overlap_cancel:
  assumes "no_text_overlap bs"
  shows "no_text_overlap (map (set_cancelled now i) bs)"
  unfolding no_text_overlap_def
proof (intro ballI impI)
  fix a b
  assume a: "a \<in> set (map (set_cancelled now i) bs)"
    and b: "b \<in> set (map (set_cancelled now i) bs)"
    and h: "b_id a \<noteq> b_id b \<and> room_id a = room_id b \<and>
            status a = ''active'' \<and> status b = ''active''"
  from a obtain a0 where a0: "a0 \<in> set bs" "a = set_cancelled now i a0" by auto
  from b obtain b0 where b0: "b0 \<in> set bs" "b = set_cancelled now i b0" by auto
  from a0 h have "a = a0" using set_cancelled_active by metis
  moreover from b0 h have "b = b0" using set_cancelled_active by metis
  ultimately show "text_disjoint a b"
    using assms a0 b0 h unfolding no_text_overlap_def by blast
qed

lemma no_text_overlap_insert:
  assumes ok: "no_text_overlap bs"
    and free: "\<forall>b \<in> set bs. room_id b = room_id n \<longrightarrow> \<not> blocking (check_in n) (check_out n) b"
  shows "no_text_overlap (bs @ [n])"
  unfolding no_text_overlap_def
proof (intro ballI impI)
  fix a b
  assume a: "a \<in> set (bs @ [n])" and b: "b \<in> set (bs @ [n])"
    and h: "b_id a \<noteq> b_id b \<and> room_id a = room_id b \<and>
            status a = ''active'' \<and> status b = ''active''"
  consider "a \<in> set bs" "b \<in> set bs" | "a \<in> set bs" "b = n" | "a = n" "b \<in> set bs" | "a = n" "b = n"
    using a b by auto
  then show "text_disjoint a b"
  proof cases
    case 1
    then show ?thesis using ok h unfolding no_text_overlap_def by blast
  next
    case 2
    with free h have "\<not> blocking (check_in n) (check_out n) a" by simp
    with h 2 show ?thesis by (auto simp: blocking_def text_disjoint_def)
  next
    case 3
    with free h have "\<not> blocking (check_in n) (check_out n) b" by simp
    with h 3 show ?thesis by (auto simp: blocking_def text_disjoint_def)
  next
    case 4
    with h show ?thesis by simp
  qed
qed

lemma ledger_ok_step:
  assumes "ledger_ok s"
  shows "ledger_ok (step s r)"
proof -
  let ?s' = "step s r"
  have rooms: "rooms ?s' = rooms s" by (rule step_rooms)
  from step_bookings [of s r]
  consider (same) "bookings ?s' = bookings s"
    | (ins) now guest rt ci co where
        "\<exists>a b. parse_date ci = Some a \<and> parse_date co = Some b \<and> a < b"
        "available_rooms s rt ci co \<noteq> []"
        "bookings ?s' = bookings s @
          [\<lparr>b_id = next_booking_id s, room_id = r_id (hd (available_rooms s rt ci co)),
            guest_name = guest, check_in = ci, check_out = co,
            status = ''active'', created_at = now, cancelled_at = None\<rparr>]"
    | (canc) now i where "bookings ?s' = map (set_cancelled now i) (bookings s)"
    by blast
  then show ?thesis
  proof cases
    case same
    with assms rooms show ?thesis by (simp add: ledger_ok_def)
  next
    case ins
    let ?n = "\<lparr>b_id = next_booking_id s, room_id = r_id (hd (available_rooms s rt ci co)),
            guest_name = guest, check_in = ci, check_out = co,
            status = ''active'', created_at = now, cancelled_at = None\<rparr>"
    have fresh: "next_booking_id s \<notin> b_id ` set (bookings s)"
      using next_booking_id_fresh [of _ s] by fastforce
    have d: "distinct (map b_id (bookings ?s'))"
      using assms fresh ins(3) by (simp add: ledger_ok_def)
    have rv: "range_valid ?n"
      using ins(1) by (auto simp: range_valid_def stay_def)
    have ref: "room_id ?n \<in> r_id ` set (rooms s)"
      using hd_available_rooms(1) [OF ins(2)] by simp
    have free: "\<forall>b \<in> set (bookings s). room_id b = room_id ?n \<longrightarrow>
                  \<not> blocking (check_in ?n) (check_out ?n) b"
      using hd_available_rooms(3) [OF ins(2)] by simp
    have nto: "no_text_overlap (bookings ?s')"
      unfolding ins(3) using assms free
      by (intro no_text_overlap_insert) (simp_all add: ledger_ok_def)
    have each: "\<forall>b \<in> set (bookings ?s').
        room_id b \<in> r_id ` set (rooms ?s') \<and> range_valid b \<and>
        (status b = ''active'' \<or> status b = ''cancelled'')"
      unfolding ins(3) rooms using assms rv ref by (auto simp: ledger_ok_def)
    from d each nto show ?thesis by (simp add: ledger_ok_def)
  next
    case canc
    have d: "distinct (map b_id (bookings ?s'))"
      using assms by (simp add: canc ledger_ok_def comp_def)
    have nto: "no_text_overlap (bookings ?s')"
      unfolding canc using assms by (intro no_text_overlap_cancel) (simp add: ledger_ok_def)
    have each: "\<forall>b \<in> set (bookings ?s').
        room_id b \<in> r_id ` set (rooms ?s') \<and> range_valid b \<and>
        (status b = ''active'' \<or> status b = ''cancelled'')"
    proof
      fix b
      assume "b \<in> set (bookings ?s')"
      then obtain b0 where b0: "b0 \<in> set (bookings s)" "b = set_cancelled now i b0"
        unfolding canc by auto
      from assms b0(1) have "room_id b0 \<in> r_id ` set (rooms s)" "range_valid b0"
        "status b0 = ''active'' \<or> status b0 = ''cancelled''"
        by (simp_all add: ledger_ok_def)
      then show "room_id b \<in> r_id ` set (rooms ?s') \<and> range_valid b \<and>
        (status b = ''active'' \<or> status b = ''cancelled'')"
        using set_cancelled_status [of now i b0] by (auto simp: b0(2) rooms)
    qed
    from d each nto show ?thesis by (simp add: ledger_ok_def)
  qed
qed

lemma ledger_ok_run: "ledger_ok s \<Longrightarrow> ledger_ok (run s reqs)"
  by (rule run_invariant) (auto intro: ledger_ok_step)

lemma ledger_ok_reachable: "ledger_ok (run (empty_ledger catalog) reqs)"
  by (rule ledger_ok_run) (rule ledger_ok_empty)

section \<open>The claims\<close>

text \<open>
  The order of the checks of \<^verbatim>\<open>create_booking\<close>: when one of the two date strings
  does not parse the call fails with \<open>InvalidDate\<close>; otherwise, when the parsed
  check-out is not after the parsed check-in, with \<open>InvalidRange\<close>; otherwise, when
  the availability query returns no room, with \<open>NoAvailability\<close>; otherwise it
  appends one active booking on the first room of the query, under a key that no
  booking has yet, and returns that key with the room. Whether the query returns the
  rooms that are free is another matter, taken up with the dates compared as text.
\<close>

theorem create_booking_check_order:
  "(parse_date ci = None \<or> parse_date co = None \<longrightarrow>
      create_booking now s guest rt ci co = (Inl InvalidDate, s)) \<and>
   (\<forall>a b. parse_date ci = Some a \<and> parse_date co = Some b \<and> b \<le> a \<longrightarrow>
      create_booking now s guest rt ci co = (Inl InvalidRange, s)) \<and>
   (\<forall>a b. parse_date ci = Some a \<and> parse_date co = Some b \<and> a < b \<and>
      available_rooms s rt ci co = [] \<longrightarrow>
      create_booking now s guest rt ci co = (Inl NoAvailability, s)) \<and>
   (\<forall>a b room rest. parse_date ci = Some a \<and> parse_date co = Some b \<and> a < b \<and>
      available_rooms s rt ci co = room # rest \<longrightarrow>
      create_booking now s guest rt ci co =
        (Inr (next_booking_id s, room),
         s\<lparr>bookings := bookings s @
            [\<lparr>b_id = next_booking_id s, room_id = r_id room, guest_name = guest,
              check_in = ci, check_out = co, status = ''active'', created_at = now,
              cancelled_at = None\<rparr>]\<rparr>) \<and>
      next_booking_id s \<notin> b_id ` set (bookings s))"
proof -
  have fresh: "next_booking_id s \<notin> b_id ` set (bookings s)"
    using next_booking_id_fresh [of _ s] by fastforce
  show ?thesis
    using fresh by (auto simp: create_booking_cases)
qed

text \<open>The four outcomes on the seeded database.\<close>

theorem create_booking_check_order_witness:
  "create_booking ''t0'' init_db ''Ann'' ''Single'' ''2024-02-30'' ''2024-03-02''
     = (Inl InvalidDate, init_db) \<and>
   create_booking ''t0'' init_db ''Ann'' ''Single'' ''2024-02-01'' ''2024-01-30''
     = (Inl InvalidRange, init_db) \<and>
   create_booking ''t0'' init_db ''Ann'' ''Suite'' ''2024-01-10'' ''2024-01-12''
     = (Inl NoAvailability, init_db) \<and>
   fst (create_booking ''t0'' init_db ''Ann'' ''Single'' ''2024-01-10'' ''2024-01-12'')
     = Inr (1, \<lparr>r_id = 1, room_type = ''Single'', room_number = ''S101'', price = 1500\<rparr>)"
proof -
  have p1: "parse_date ''2024-02-30'' = None" by code_simp
  have p2: "parse_date ''2024-02-01'' = Some (2024, 2, 1)" by code_simp
  have p3: "parse_date ''2024-01-30'' = Some (2024, 1, 30)" by code_simp
  have p4: "parse_date ''2024-01-10'' = Some (2024, 1, 10)" by code_simp
  have p5: "parse_date ''2024-01-12'' = Some (2024, 1, 12)" by code_simp
  have o1: "((2024, 1, 30) :: date) \<le> (2024, 2, 1)" by simp
  have o2: "((2024, 1, 10) :: date) < (2024, 1, 12)" by simp
  have a1: "available_rooms init_db ''Suite'' ''2024-01-10'' ''2024-01-12'' = []" by code_simp
  have a2: "available_rooms init_db ''Single'' ''2024-01-10'' ''2024-01-12'' =
    \<lparr>r_id = 1, room_type = ''Single'', room_number = ''S101'', price = 1500\<rparr> #
    [\<lparr>r_id = 2, room_type = ''Single'', room_number = ''S102'', price = 1500\<rparr>]"
    by code_simp
  have n: "next_booking_id init_db = 1" by code_simp
  have c1: "create_booking ''t0'' init_db ''Ann'' ''Single'' ''2024-02-30'' ''2024-03-02''
     = (Inl InvalidDate, init_db)"
    using create_booking_check_order
      [of "''2024-02-30''" "''2024-03-02''" "''t0''" init_db "''Ann''" "''Single''"] p1
    by blast
  have c2: "create_booking ''t0'' init_db ''Ann'' ''Single'' ''2024-02-01'' ''2024-01-30''
     = (Inl InvalidRange, init_db)"
    using create_booking_check_order
      [of "''2024-02-01''" "''2024-01-30''" "''t0''" init_db "''Ann''" "''Single''"] p2 p3 o1
    by blast
  have c3: "create_booking ''t0'' init_db ''Ann'' ''Suite'' ''2024-01-10'' ''2024-01-12''
     = (Inl NoAvailability, init_db)"
    using create_booking_check_order
      [of "''2024-01-10''" "''2024-01-12''" "''t0''" init_db "''Ann''" "''Suite''"] p4 p5 o2 a1
    by blast
  have c4: "fst (create_booking ''t0'' init_db ''Ann'' ''Single'' ''2024-01-10'' ''2024-01-12'')
     = Inr (next_booking_id init_db,
            \<lparr>r_id = 1, room_type = ''Single'', room_number = ''S101'', price = 1500\<rparr>)"
    using create_booking_check_order
      [of "''2024-01-10''" "''2024-01-12''" "''t0''" init_db "''Ann''" "''Single''"] p4 p5 o2 a2
    by (metis fst_conv)
  from c1 c2 c3 c4 n show ?thesis by simp
qed

text \<open>
  Claim C7. A call of \<^verbatim>\<open>create_booking\<close> that fails leaves the database as it was,
  and it fails with one of \<open>InvalidDate\<close>, \<open>InvalidRange\<close> and \<open>NoAvailability\<close>.
\<close>

theorem failed_create_booking_writes_nothing:
  "fst (create_booking now s guest rt ci co) = Inl e \<Longrightarrow>
     snd (create_booking now s guest rt ci co) = s \<and>
     (e = InvalidDate \<or> e = InvalidRange \<or> e = NoAvailability)"
  by (auto simp: create_booking_cases split: if_splits)

text \<open>One failing call of each kind.\<close>

theorem failed_create_booking_writes_nothing_witness:
  "(fst (create_booking ''t0'' init_db ''Ann'' ''Single'' ''2024-02-30'' ''2024-03-02'')
      = Inl InvalidDate \<and>
    snd (create_booking ''t0'' init_db ''Ann'' ''Single'' ''2024-02-30'' ''2024-03-02'')
      = init_db) \<and>
   (fst (create_booking ''t0'' init_db ''Ann'' ''Single'' ''2024-02-01'' ''2024-01-30'')
      = Inl InvalidRange \<and>
    snd (create_booking ''t0'' init_db ''Ann'' ''Single'' ''2024-02-01'' ''2024-01-30'')
      = init_db) \<and>
   (fst (create_booking ''t0'' init_db ''Ann'' ''Suite'' ''2024-01-10'' ''2024-01-12'')
      = Inl NoAvailability \<and>
    snd (create_booking ''t0'' init_db ''Ann'' ''Suite'' ''2024-01-10'' ''2024-01-12'')
      = init_db)"
proof -
  have h1: "fst (create_booking ''t0'' init_db ''Ann'' ''Single'' ''2024-02-30'' ''2024-03-02'')
      = Inl InvalidDate" by code_simp
  have h2: "fst (create_booking ''t0'' init_db ''Ann'' ''Single'' ''2024-02-01'' ''2024-01-30'')
      = Inl InvalidRange" by code_simp
  have h3: "fst (create_booking ''t0'' init_db ''Ann'' ''Suite'' ''2024-01-10'' ''2024-01-12'')
      = Inl NoAvailability" by code_simp
  show ?thesis
    using h1 h2 h3
      failed_create_booking_writes_nothing [OF h1]
      failed_create_booking_writes_nothing [OF h2]
      failed_create_booking_writes_nothing [OF h3]
    by blast
qed

lemma find_distinct_id:
  assumes "distinct (map b_id bs)" and "b \<in> set bs"
  shows "find (\<lambda>x. b_id x = b_id b) bs = Some b"
  using assms by (induction bs) (auto simp: image_iff)

text \<open>
  Claim C6. For a key that the table can hold, a signed 64-bit integer,
  \<^verbatim>\<open>cancel_booking\<close> fails with \<open>NotFound\<close> when no booking has the key, and with
  \<open>AlreadyCancelled\<close> when the booking found is cancelled. Otherwise it succeeds,
  sets the status of the booking to cancelled, stamps \<^verbatim>\<open>cancelled_at\<close> with the time
  of the call and changes nothing else; a second call for the same key then fails with
  \<open>AlreadyCancelled\<close>. Whatever requests follow, the booking at a position of the
  ledger that is cancelled stays the same booking and stays cancelled. An integer
  outside 64 bits is the key of no booking: for it the call raises
  \<^verbatim>\<open>OverflowError\<close> before the lookup and leaves the database as it was.
\<close>

theorem cancel_booking_outcomes:
  "(\<not> sqlite_int booking_id \<longrightarrow> cancel_booking now s booking_id = (Inl Overflow, s)) \<and>
   (sqlite_int booking_id \<and> booking_id \<notin> b_id ` set (bookings s) \<longrightarrow>
      cancel_booking now s booking_id = (Inl NotFound, s)) \<and>
   (\<forall>row. sqlite_int booking_id \<and>
      find (\<lambda>b. b_id b = booking_id) (bookings s) = Some row \<and>
      status row = ''cancelled'' \<longrightarrow>
      cancel_booking now s booking_id = (Inl AlreadyCancelled, s)) \<and>
   (\<forall>row. sqlite_int booking_id \<and>
      find (\<lambda>b. b_id b = booking_id) (bookings s) = Some row \<and>
      status row \<noteq> ''cancelled'' \<longrightarrow>
      (\<exists>s'. cancel_booking now s booking_id = (Inr True, s') \<and>
         rooms s' = rooms s \<and>
         bookings s' =
           map (\<lambda>b. if b_id b = booking_id
                    then b\<lparr>status := ''cancelled'', cancelled_at := Some now\<rparr> else b)
             (bookings s) \<and>
         (\<forall>now'. cancel_booking now' s' booking_id = (Inl AlreadyCancelled, s')))) \<and>
   (\<forall>reqs i. i < length (bookings s) \<and> status (bookings s ! i) = ''cancelled'' \<longrightarrow>
      i < length (bookings (run s reqs)) \<and>
      b_id (bookings (run s reqs) ! i) = b_id (bookings s ! i) \<and>
      status (bookings (run s reqs) ! i) = ''cancelled'')"
proof (intro conjI allI impI)
  assume "\<not> sqlite_int booking_id"
  then show "cancel_booking now s booking_id = (Inl Overflow, s)"
    by (simp add: cancel_booking_def)
next
  assume h: "sqlite_int booking_id \<and> booking_id \<notin> b_id ` set (bookings s)"
  then have "booking_id \<notin> b_id ` set (bookings s)" by simp
  then have "find (\<lambda>b. b_id b = booking_id) (bookings s) = None"
    by (rule iffD2 [OF find_None_iff_id])
  with h show "cancel_booking now s booking_id = (Inl NotFound, s)"
    by (simp add: cancel_booking_def)
next
  fix row
  assume "sqlite_int booking_id \<and>
    find (\<lambda>b. b_id b = booking_id) (bookings s) = Some row \<and> status row = ''cancelled''"
  then show "cancel_booking now s booking_id = (Inl AlreadyCancelled, s)"
    by (simp add: cancel_booking_def)
next
  fix row
  assume h: "sqlite_int booking_id \<and>
             find (\<lambda>b. b_id b = booking_id) (bookings s) = Some row \<and>
             status row \<noteq> ''cancelled''"
  let ?s' = "s\<lparr>bookings := map (set_cancelled now booking_id) (bookings s)\<rparr>"
  have c: "cancel_booking now s booking_id = (Inr True, ?s')"
    using h by (simp add: cancel_booking_def)
  have m: "bookings ?s' =
           map (\<lambda>b. if b_id b = booking_id
                    then b\<lparr>status := ''cancelled'', cancelled_at := Some now\<rparr> else b)
             (bookings s)"
    by (simp add: set_cancelled_def [abs_def])
  have t: "\<forall>now'. cancel_booking now' ?s' booking_id = (Inl AlreadyCancelled, ?s')"
    using cancel_twice [OF c] by blast
  show "\<exists>s'. cancel_booking now s booking_id = (Inr True, s') \<and>
         rooms s' = rooms s \<and>
         bookings s' =
           map (\<lambda>b. if b_id b = booking_id
                    then b\<lparr>status := ''cancelled'', cancelled_at := Some now\<rparr> else b)
             (bookings s) \<and>
         (\<forall>now'. cancel_booking now' s' booking_id = (Inl AlreadyCancelled, s'))"
    using c m t by (intro exI [of _ ?s']) simp
next
  fix reqs i
  assume h: "i < length (bookings s) \<and> status (bookings s ! i) = ''cancelled''"
  then have k: "i < length (bookings (run s reqs)) \<and>
         b_id (bookings (run s reqs) ! i) = b_id (bookings s ! i) \<and>
         room_id (bookings (run s reqs) ! i) = room_id (bookings s ! i) \<and>
         check_in (bookings (run s reqs) ! i) = check_in (bookings s ! i) \<and>
         check_out (bookings (run s reqs) ! i) = check_out (bookings s ! i) \<and>
         (status (bookings s ! i) = ''cancelled'' \<longrightarrow>
            status (bookings (run s reqs) ! i) = ''cancelled'')"
    by (intro run_keeps) simp
  from k show "i < length (bookings (run s reqs))" by simp
  from k show "b_id (bookings (run s reqs) ! i) = b_id (bookings s ! i)" by simp
  from k h show "status (bookings (run s reqs) ! i) = ''cancelled''" by simp
qed

lemma demo_db_bookings: "bookings demo_db = [demo_booking_1, demo_booking_2]"
  by code_simp

lemma demo_db_rooms: "rooms demo_db = seed_rooms"
  by (simp add: demo_db_def run_rooms empty_ledger_def)

lemma demo_cancel: "cancel_booking ''2024-01-02T08:00:00'' demo_db 1 = (Inr True, demo_cancelled)"
  by code_simp

text \<open>The cases on the small ledger: an integer outside 64 bits, an unknown key, a
  cancelled booking, an active booking cancelled and cancelled again, and a cancelled
  booking after two further requests.\<close>

theorem cancel_booking_outcomes_witness:
  "cancel_booking ''t'' demo_db 9223372036854775808 = (Inl Overflow, demo_db) \<and>
   cancel_booking ''t'' demo_db 9999 = (Inl NotFound, demo_db) \<and>
   cancel_booking ''t'' demo_cancelled 1 = (Inl AlreadyCancelled, demo_cancelled) \<and>
   (\<exists>s'. cancel_booking ''t'' demo_db 1 = (Inr True, s') \<and>
      cancel_booking ''u'' s' 1 = (Inl AlreadyCancelled, s')) \<and>
   status (bookings (run demo_cancelled
      [Create ''v'' ''Cy'' ''Single'' ''2024-01-10'' ''2024-01-12'', Cancel ''w'' 1]) ! 0)
     = ''cancelled''"
proof -
  have r0: "\<not> sqlite_int 9223372036854775808" by (simp add: sqlite_int_def)
  have r1: "sqlite_int 9999" "sqlite_int 1" by (simp_all add: sqlite_int_def)
  have h1: "9999 \<notin> b_id ` set (bookings demo_db)" by code_simp
  have f1: "find (\<lambda>b. b_id b = 1) (bookings demo_db) = Some demo_booking_1" by code_simp
  have st1: "status demo_booking_1 \<noteq> ''cancelled''" by code_simp
  have f2: "find (\<lambda>b. b_id b = 1) (bookings demo_cancelled) =
    Some (demo_booking_1\<lparr>status := ''cancelled'', cancelled_at := Some ''2024-01-02T08:00:00''\<rparr>)"
    by code_simp
  have st2: "status (demo_booking_1\<lparr>status := ''cancelled'',
    cancelled_at := Some ''2024-01-02T08:00:00''\<rparr>) = ''cancelled''" by simp
  have i0: "0 < length (bookings demo_cancelled) \<and>
    status (bookings demo_cancelled ! 0) = ''cancelled''" by code_simp
  have c0: "cancel_booking ''t'' demo_db 9223372036854775808 = (Inl Overflow, demo_db)"
    using cancel_booking_outcomes
      [where booking_id = 9223372036854775808 and s = demo_db and now = "''t''"] r0
    by blast
  have c1: "cancel_booking ''t'' demo_db 9999 = (Inl NotFound, demo_db)"
    using cancel_booking_outcomes [where booking_id = 9999 and s = demo_db and now = "''t''"]
      r1(1) h1 by blast
  have c2: "cancel_booking ''t'' demo_cancelled 1 = (Inl AlreadyCancelled, demo_cancelled)"
    using cancel_booking_outcomes [where booking_id = 1 and s = demo_cancelled and now = "''t''"]
      r1(2) f2 st2 by blast
  have c3: "\<exists>s'. cancel_booking ''t'' demo_db 1 = (Inr True, s') \<and>
      cancel_booking ''u'' s' 1 = (Inl AlreadyCancelled, s')"
    using cancel_booking_outcomes [where booking_id = 1 and s = demo_db and now = "''t''"]
      r1(2) f1 st1 by blast
  have c4: "status (bookings (run demo_cancelled
      [Create ''v'' ''Cy'' ''Single'' ''2024-01-10'' ''2024-01-12'', Cancel ''w'' 1]) ! 0)
     = ''cancelled''"
    using cancel_booking_outcomes [where booking_id = 1 and s = demo_cancelled and now = "''t''"]
      i0 by blast
  from c0 c1 c2 c3 c4 show ?thesis by blast
qed

lemma range_valid_iff:
  "range_valid b \<longleftrightarrow>
     (\<exists>a c. parse_date (check_in b) = Some a \<and> parse_date (check_out b) = Some c \<and> a < c)"
  by (auto simp: range_valid_def stay_def split: option.splits)

text \<open>
  Claim C8. In every ledger built from the empty one, each booking has dates that
  parse and a check-out after its check-in. No request changes the key, the
  check-in or the check-out of a booking already stored, and
  \<^verbatim>\<open>cancel_booking\<close> in particular leaves both date columns as they are.
\<close>

theorem stored_ranges_valid_and_fixed:
  "(\<forall>b \<in> set (bookings (run (empty_ledger catalog) reqs)).
      \<exists>a c. parse_date (check_in b) = Some a \<and> parse_date (check_out b) = Some c \<and> a < c) \<and>
   (\<forall>more i. i < length (bookings s) \<longrightarrow>
      i < length (bookings (run s more)) \<and>
      b_id (bookings (run s more) ! i) = b_id (bookings s ! i) \<and>
      check_in (bookings (run s more) ! i) = check_in (bookings s ! i) \<and>
      check_out (bookings (run s more) ! i) = check_out (bookings s ! i)) \<and>
   (\<forall>now i. map check_in (bookings (snd (cancel_booking now s i))) = map check_in (bookings s) \<and>
      map check_out (bookings (snd (cancel_booking now s i))) = map check_out (bookings s))"
proof (intro conjI ballI allI impI)
  fix b
  assume "b \<in> set (bookings (run (empty_ledger catalog) reqs))"
  with ledger_ok_reachable [of catalog reqs] have "range_valid b"
    by (simp add: ledger_ok_def)
  then show "\<exists>a c. parse_date (check_in b) = Some a \<and> parse_date (check_out b) = Some c \<and> a < c"
    by (simp only: range_valid_iff)
next
  fix more i
  assume i: "i < length (bookings s)"
  note k = run_keeps [OF i, of more]
  from k show "i < length (bookings (run s more))" by simp
  from k show "b_id (bookings (run s more) ! i) = b_id (bookings s ! i)" by simp
  from k show "check_in (bookings (run s more) ! i) = check_in (bookings s ! i)" by simp
  from k show "check_out (bookings (run s more) ! i) = check_out (bookings s ! i)" by simp
next
  fix now i
  show "map check_in (bookings (snd (cancel_booking now s i))) = map check_in (bookings s)"
    by (simp add: cancel_booking_def comp_def split: option.splits)
  show "map check_out (bookings (snd (cancel_booking now s i))) = map check_out (bookings s)"
    by (simp add: cancel_booking_def comp_def split: option.splits)
qed

text \<open>The first booking of the small ledger, before and after its cancellation.\<close>

theorem stored_ranges_valid_and_fixed_witness:
  "demo_booking_1 \<in> set (bookings demo_db) \<and>
   (\<exists>a c. parse_date (check_in demo_booking_1) = Some a \<and>
      parse_date (check_out demo_booking_1) = Some c \<and> a < c) \<and>
   (0 < length (bookings demo_db) \<and>
    check_in (bookings (run demo_db [Cancel ''t'' 1]) ! 0) = check_in (bookings demo_db ! 0) \<and>
    check_out (bookings (run demo_db [Cancel ''t'' 1]) ! 0) = check_out (bookings demo_db ! 0))"
proof -
  have m: "demo_booking_1 \<in> set (bookings demo_db)" by (simp add: demo_db_bookings)
  have l: "0 < length (bookings demo_db)" by (simp add: demo_db_bookings)
  note T = stored_ranges_valid_and_fixed
    [where catalog = seed_rooms and reqs = demo_requests and s = demo_db]
  from T m have a: "\<exists>a c. parse_date (check_in demo_booking_1) = Some a \<and>
      parse_date (check_out demo_booking_1) = Some c \<and> a < c"
    unfolding demo_db_def by blast
  from T l have b: "check_in (bookings (run demo_db [Cancel ''t'' 1]) ! 0) = check_in (bookings demo_db ! 0) \<and>
    check_out (bookings (run demo_db [Cancel ''t'' 1]) ! 0) = check_out (bookings demo_db ! 0)"
    by blast
  from m l a b show ?thesis by blast
qed

lemma available_rooms_sorted:
  "sorted_wrt (<) (map r_id (rooms s)) \<Longrightarrow>
     sorted_wrt (<) (map r_id (available_rooms s rt ci co))"
  by (simp add: available_rooms_def sorted_wrt_map sorted_wrt_filter)

lemma hd_least:
  assumes "sorted_wrt (<) (map f xs)" and "x \<in> set xs"
  shows "f (hd xs) \<le> (f x :: int)"
  using assms by (cases xs) auto

lemma sorted_ids_inj:
  assumes "sorted_wrt (<) (map f xs)" and "x \<in> set xs" and "y \<in> set xs" and "f x = (f y :: int)"
  shows "x = y"
proof -
  from assms(1) have "distinct (map f xs)" by (simp add: strict_sorted_iff)
  then have "inj_on f (set xs)" by (simp add: distinct_map)
  with assms(2-4) show ?thesis by (auto dest: inj_onD)
qed

lemma create_booking_Inr:
  assumes "create_booking now s guest rt ci co = (Inr (bid, room), s')"
  shows "available_rooms s rt ci co \<noteq> []" and "room = hd (available_rooms s rt ci co)"
    and "bid = next_booking_id s"
  using assms by (auto simp: create_booking_cases split: if_splits)

lemma create_first_fit:
  assumes "sorted_wrt (<) (map r_id (rooms s))"
    and "create_booking now s guest rt ci co = (Inr (bid, room), s')"
  shows "room \<in> set (available_rooms s rt ci co)"
    and "\<forall>r \<in> set (available_rooms s rt ci co). r_id room \<le> r_id r"
proof -
  note c = create_booking_Inr [OF assms(2)]
  from c(1,2) show "room \<in> set (available_rooms s rt ci co)" by simp
  have srt: "sorted_wrt (<) (map r_id (available_rooms s rt ci co))"
    using assms(1) by (rule available_rooms_sorted)
  show "\<forall>r \<in> set (available_rooms s rt ci co). r_id room \<le> r_id r"
    unfolding c(2) using hd_least [OF srt] by blast
qed

text \<open>
  Claim C4. With the \<^verbatim>\<open>rooms\<close> table in ascending key order (its rowid order),
  \<^verbatim>\<open>available_rooms\<close> returns rooms in ascending key order, so the answer to a
  query is one fixed sequence for a given database, and the room
  \<^verbatim>\<open>create_booking\<close> selects is the available room with the lowest key.
\<close>

theorem available_rooms_ascending_first_fit:
  assumes "sorted_wrt (<) (map r_id (rooms s))"
  shows "sorted_wrt (<) (map r_id (available_rooms s rt ci co)) \<and>
     (\<forall>now guest bid room s'.
        create_booking now s guest rt ci co = (Inr (bid, room), s') \<longrightarrow>
        room \<in> set (available_rooms s rt ci co) \<and>
        (\<forall>r \<in> set (available_rooms s rt ci co). r_id room \<le> r_id r))"
  using available_rooms_sorted [OF assms] create_first_fit [OF assms] by blast

text \<open>On the seeded database the two single rooms are returned as 1, 2 and the
  booking goes to room 1.\<close>

theorem available_rooms_ascending_first_fit_witness:
  "sorted_wrt (<) (map r_id (rooms init_db)) \<and>
   map r_id (available_rooms init_db ''Single'' ''2024-01-10'' ''2024-01-12'') = [1, 2] \<and>
   sorted_wrt (<) (map r_id (available_rooms init_db ''Single'' ''2024-01-10'' ''2024-01-12'')) \<and>
   fst (create_booking ''t'' init_db ''Ann'' ''Single'' ''2024-01-10'' ''2024-01-12'')
     = Inr (1, room_S101) \<and>
   room_S101 \<in> set (available_rooms init_db ''Single'' ''2024-01-10'' ''2024-01-12'') \<and>
   (\<exists>r. r \<in> set (available_rooms init_db ''Single'' ''2024-01-10'' ''2024-01-12'') \<and>
      r_id r = 2 \<and> r_id room_S101 \<le> r_id r)"
proof -
  have h: "sorted_wrt (<) (map r_id (rooms init_db))" by code_simp
  have e: "map r_id (available_rooms init_db ''Single'' ''2024-01-10'' ''2024-01-12'') = [1, 2]"
    by code_simp
  have f: "fst (create_booking ''t'' init_db ''Ann'' ''Single'' ''2024-01-10'' ''2024-01-12'')
     = Inr (1, room_S101)" by code_simp
  then have c: "create_booking ''t'' init_db ''Ann'' ''Single'' ''2024-01-10'' ''2024-01-12''
     = (Inr (1, room_S101),
        snd (create_booking ''t'' init_db ''Ann'' ''Single'' ''2024-01-10'' ''2024-01-12''))"
    by (simp add: prod_eq_iff)
  have r: "\<lparr>r_id = 2, room_type = ''Single'', room_number = ''S102'', price = 1500\<rparr>
      \<in> set (available_rooms init_db ''Single'' ''2024-01-10'' ''2024-01-12'')"
    "r_id \<lparr>r_id = 2, room_type = ''Single'', room_number = ''S102'', price = 1500\<rparr> = 2"
    by code_simp+
  note T = available_rooms_ascending_first_fit
    [OF h, where rt = "''Single''" and ci = "''2024-01-10''" and co = "''2024-01-12''"]
  from T c have "room_S101 \<in> set (available_rooms init_db ''Single'' ''2024-01-10'' ''2024-01-12'') \<and>
   (\<forall>r \<in> set (available_rooms init_db ''Single'' ''2024-01-10'' ''2024-01-12'').
      r_id room_S101 \<le> r_id r)"
    by blast
  with T h e f r show ?thesis by blast
qed

lemma cancel_booking_Inr:
  assumes "cancel_booking now s i = (Inr v, s')"
  shows "\<exists>row. find (\<lambda>b. b_id b = i) (bookings s) = Some row \<and> status row \<noteq> ''cancelled''"
    and "s' = s\<lparr>bookings := map (set_cancelled now i) (bookings s)\<rparr>"
  using assms by (auto simp: cancel_booking_def split: option.splits if_splits)

lemma released_room_available:
  assumes ok: "ledger_ok s"
    and b: "b \<in> set (bookings s)"
    and r: "r \<in> set (rooms s)" "r_id r = room_id b"
    and c: "cancel_booking now s (b_id b) = (Inr True, s')"
  shows "r \<in> set (available_rooms s' (room_type r) (check_in b) (check_out b))"
proof -
  from ok have d: "distinct (map b_id (bookings s))" and nto: "no_text_overlap (bookings s)"
    by (simp_all add: ledger_ok_def)
  from ok b have st: "status b = ''active'' \<or> status b = ''cancelled''"
    by (simp add: ledger_ok_def)
  have fb: "find (\<lambda>x. b_id x = b_id b) (bookings s) = Some b"
    using d b by (rule find_distinct_id)
  from cancel_booking_Inr(1) [OF c] fb have "status b \<noteq> ''cancelled''" by simp
  with st have act: "status b = ''active''" by simp
  have s': "s' = s\<lparr>bookings := map (set_cancelled now (b_id b)) (bookings s)\<rparr>"
    using cancel_booking_Inr(2) [OF c] .
  have free: "\<forall>x \<in> set (bookings s'). room_id x = r_id r \<longrightarrow>
                \<not> blocking (check_in b) (check_out b) x"
  proof (intro ballI impI)
    fix x
    assume x: "x \<in> set (bookings s')" and rx: "room_id x = r_id r"
    from x s' obtain x0 where x0: "x0 \<in> set (bookings s)" "x = set_cancelled now (b_id b) x0"
      by auto
    show "\<not> blocking (check_in b) (check_out b) x"
    proof (cases "b_id x0 = b_id b")
      case True
      then have "status x = ''cancelled''" by (simp add: x0(2) set_cancelled_def)
      then show ?thesis by (simp add: blocking_def)
    next
      case False
      then have xx: "x = x0" by (simp add: x0(2) set_cancelled_def)
      show ?thesis
      proof (cases "status x0 = ''active''")
        case True
        with nto x0(1) b False act rx r(2) xx have "text_disjoint x0 b"
          unfolding no_text_overlap_def by force
        then show ?thesis by (auto simp: xx blocking_def text_disjoint_def)
      next
        case False
        then show ?thesis by (simp add: xx blocking_def)
      qed
    qed
  qed
  have "rooms s' = rooms s" by (simp add: s')
  with r(1) free show ?thesis by (simp add: available_rooms_iff)
qed

text \<open>
  Claim C10. Let \<open>b\<close> be a booking of a ledger built from the empty one, on room
  \<open>r\<close>, and let its cancellation succeed. Then \<open>r\<close> is among the rooms available
  for the type of \<open>r\<close> over the dates of \<open>b\<close>, and a booking for that type and those
  dates is admitted: on the available room with the lowest key, which is \<open>r\<close>
  exactly when no available room has a lower key. In such a ledger the other active
  bookings of \<open>r\<close> never overlap \<open>b\<close> as the query compares them, so the condition
  of the claim on them always holds; the query looks at active bookings only.
\<close>

theorem cancel_releases_room:
  assumes "sorted_wrt (<) (map r_id catalog)"
    and "b \<in> set (bookings (run (empty_ledger catalog) reqs))"
    and "r \<in> set catalog" and "r_id r = room_id b"
    and "cancel_booking now (run (empty_ledger catalog) reqs) (b_id b) = (Inr True, s')"
  shows "r \<in> set (available_rooms s' (room_type r) (check_in b) (check_out b)) \<and>
     (\<exists>bid room s''.
        create_booking now' s' guest (room_type r) (check_in b) (check_out b)
          = (Inr (bid, room), s'') \<and>
        room \<in> set (available_rooms s' (room_type r) (check_in b) (check_out b)) \<and>
        r_id room \<le> r_id r \<and>
        (room = r \<longleftrightarrow>
           (\<forall>r' \<in> set (available_rooms s' (room_type r) (check_in b) (check_out b)).
              r_id r \<le> r_id r')))"
proof -
  let ?s = "run (empty_ledger catalog) reqs"
  let ?av = "available_rooms s' (room_type r) (check_in b) (check_out b)"
  have ok: "ledger_ok ?s" by (rule ledger_ok_reachable)
  have rooms: "rooms ?s = catalog" by (simp add: run_rooms empty_ledger_def)
  have rooms': "rooms s' = catalog"
    using cancel_booking_Inr(2) [OF assms(5)] rooms by simp
  have av: "r \<in> set ?av"
    using ok assms(2) _ assms(4) assms(5)
    by (rule released_room_available) (simp add: rooms assms(3))
  then have ne: "?av \<noteq> []" by auto
  from ok assms(2) have "range_valid b" by (simp add: ledger_ok_def)
  then obtain a c where p: "parse_date (check_in b) = Some a" "parse_date (check_out b) = Some c"
    "a < c" by (auto simp: range_valid_iff)
  let ?c = "create_booking now' s' guest (room_type r) (check_in b) (check_out b)"
  have cr: "?c = (Inr (next_booking_id s', hd ?av), snd ?c)"
    using p ne by (simp add: create_booking_cases)
  have srt: "sorted_wrt (<) (map r_id (rooms s'))" using assms(1) rooms' by simp
  note ff = create_first_fit [OF srt cr]
  have srt_av: "sorted_wrt (<) (map r_id ?av)" using srt by (rule available_rooms_sorted)
  have le: "r_id (hd ?av) \<le> r_id r" using ff(2) av by blast
  have iff: "hd ?av = r \<longleftrightarrow> (\<forall>r' \<in> set ?av. r_id r \<le> r_id r')"
  proof
    assume "hd ?av = r"
    with ff(2) show "\<forall>r' \<in> set ?av. r_id r \<le> r_id r'" by simp
  next
    assume "\<forall>r' \<in> set ?av. r_id r \<le> r_id r'"
    with ff(1) have "r_id r \<le> r_id (hd ?av)" by blast
    with le have "r_id (hd ?av) = r_id r" by simp
    with srt_av ff(1) av show "hd ?av = r" by (rule sorted_ids_inj)
  qed
  from av cr ff(1) le iff show ?thesis by blast
qed

text \<open>The first booking of the small ledger: after its cancellation room S101 is
  available again for its dates and the next booking is admitted there.\<close>

theorem cancel_releases_room_witness:
  "sorted_wrt (<) (map r_id seed_rooms) \<and>
   demo_booking_1 \<in> set (bookings demo_db) \<and>
   room_S101 \<in> set seed_rooms \<and> r_id room_S101 = room_id demo_booking_1 \<and>
   cancel_booking ''2024-01-02T08:00:00'' demo_db (b_id demo_booking_1) = (Inr True, demo_cancelled) \<and>
   room_S101 \<in> set (available_rooms demo_cancelled ''Single'' ''2024-01-10'' ''2024-01-12'') \<and>
   (\<exists>bid s''. create_booking ''t'' demo_cancelled ''Cy'' ''Single'' ''2024-01-10'' ''2024-01-12''
      = (Inr (bid, room_S101), s''))"
proof -
  have h1: "sorted_wrt (<) (map r_id seed_rooms)" by code_simp
  have h2: "demo_booking_1 \<in> set (bookings (run (empty_ledger seed_rooms) demo_requests))"
    using demo_db_bookings by (simp add: demo_db_def)
  have h3: "room_S101 \<in> set seed_rooms" by code_simp
  have h4: "r_id room_S101 = room_id demo_booking_1" by code_simp
  have h5: "cancel_booking ''2024-01-02T08:00:00'' (run (empty_ledger seed_rooms) demo_requests)
      (b_id demo_booking_1) = (Inr True, demo_cancelled)"
    using demo_cancel by (simp add: demo_db_def demo_booking_1_def)
  have e: "room_type room_S101 = ''Single''" "check_in demo_booking_1 = ''2024-01-10''"
    "check_out demo_booking_1 = ''2024-01-12''"
    by (simp_all add: room_S101_def demo_booking_1_def)
  have least: "\<forall>r' \<in> set (available_rooms demo_cancelled ''Single'' ''2024-01-10'' ''2024-01-12'').
     r_id room_S101 \<le> r_id r'" by code_simp
  note T = cancel_releases_room [OF h1 h2 h3 h4 h5, where now' = "''t''" and guest = "''Cy''",
    unfolded e]
  from T least have c: "\<exists>bid s''. create_booking ''t'' demo_cancelled ''Cy'' ''Single''
      ''2024-01-10'' ''2024-01-12'' = (Inr (bid, room_S101), s'')"
    by blast
  from T have a: "room_S101 \<in> set (available_rooms demo_cancelled ''Single'' ''2024-01-10'' ''2024-01-12'')"
    by blast
  from h1 h2 h3 h4 h5 a c show ?thesis by (simp add: demo_db_def)
qed

lemma filter_unique_key:
  assumes "distinct (map f xs)" and "x \<in> set xs"
  shows "filter (\<lambda>y. f y = f x) xs = [x]"
  using assms
proof (induction xs)
  case Nil
  then show ?case by simp
next
  case (Cons y ys)
  show ?case
  proof (cases "x = y")
    case True
    from Cons.prems(1) have "f y \<notin> f ` set ys" by simp
    then have "\<forall>z \<in> set ys. f z \<noteq> f y" by (metis imageI)
    then have "filter (\<lambda>z. f z = f y) ys = []" by (simp add: filter_empty_conv)
    with True show ?thesis by simp
  next
    case False
    with Cons.prems have x: "x \<in> set ys" by simp
    with Cons.prems(1) have "f y \<noteq> f x" by auto
    moreover have "filter (\<lambda>y. f y = f x) ys = [x]"
      using Cons.IH Cons.prems(1) x by simp
    ultimately show ?thesis by simp
  qed
qed

lemma join_rooms_Nil [simp]: "join_rooms s [] = []"
  by (simp add: join_rooms_def)

lemma join_rooms_Cons:
  "join_rooms s (b # bs) =
     map (\<lambda>r. (b, room_type r, room_number r, price r))
       (filter (\<lambda>r. r_id r = room_id b) (rooms s)) @ join_rooms s bs"
  by (simp add: join_rooms_def)

lemma join_rooms_fst:
  assumes "distinct (map r_id (rooms s))"
    and "\<forall>b \<in> set bs. room_id b \<in> r_id ` set (rooms s)"
  shows "map fst (join_rooms s bs) = bs"
  using assms(2)
proof (induction bs)
  case Nil
  show ?case by simp
next
  case (Cons b bs)
  then obtain r where r: "r \<in> set (rooms s)" "room_id b = r_id r" by auto
  have "filter (\<lambda>x. r_id x = room_id b) (rooms s) = [r]"
    unfolding r(2) using assms(1) r(1) by (rule filter_unique_key)
  with Cons show ?case by (simp add: join_rooms_Cons)
qed

lemma join_rooms_row:
  assumes "row \<in> set (join_rooms s bs)"
  shows "\<exists>r \<in> set (rooms s). r_id r = room_id (fst row) \<and>
           snd row = (room_type r, room_number r, price r)"
  using assms by (auto simp: join_rooms_def)

lemma join_rooms_in:
  assumes "row \<in> set (join_rooms s bs)"
  shows "fst row \<in> set bs"
  using assms by (auto simp: join_rooms_def)

lemma set_order_by [simp]: "set (order_by_created_at_desc xs) = set xs"
  by (simp add: order_by_created_at_desc_def)

lemma mset_order_by [simp]: "mset (order_by_created_at_desc xs) = mset xs"
  by (simp add: order_by_created_at_desc_def)

lemma order_by_descending:
  "sorted_wrt (\<lambda>x y. x \<ge> y) (map (\<lambda>row. created_at (fst row)) (order_by_created_at_desc xs))"
proof -
  have "sorted (map (\<lambda>row. created_at (fst row))
          (sort_key (\<lambda>row. created_at (fst row)) (rev xs)))"
    by (rule sorted_sort_key)
  then show ?thesis
    by (simp add: order_by_created_at_desc_def rev_map [symmetric] sorted_wrt_rev)
qed

lemma list_bookings_cases:
  "list_bookings s st =
     order_by_created_at_desc (join_rooms s
       (if st = None \<or> st = Some [] then bookings s
        else filter (\<lambda>b. status b = the st) (bookings s)))"
  by (auto simp: list_bookings_def split: option.splits)

text \<open>
  Claim C9. On a ledger built from the empty one over a catalogue with unique keys,
  \<^verbatim>\<open>list_bookings\<close> returns rows in descending order of \<^verbatim>\<open>created_at\<close>, each
  row a booking with the type, number and price of its room; without a filter
  (\<^verbatim>\<open>None\<close> or the empty string, which \<^verbatim>\<open>if status:\<close> treats alike) the bookings
  of the rows are exactly the bookings of the ledger, and with a filter exactly those
  of that status. The function is a query: it returns rows and no database.
\<close>

theorem list_bookings_newest_first:
  assumes "distinct (map r_id catalog)" and "s = run (empty_ledger catalog) reqs"
  shows "sorted_wrt (\<lambda>x y. x \<ge> y) (map (\<lambda>row. created_at (fst row)) (list_bookings s st)) \<and>
     (\<forall>row \<in> set (list_bookings s st).
        \<exists>r \<in> set catalog. r_id r = room_id (fst row) \<and>
          snd row = (room_type r, room_number r, price r)) \<and>
     (st = None \<or> st = Some [] \<longrightarrow>
        mset (map fst (list_bookings s st)) = mset (bookings s)) \<and>
     (\<forall>f. st = Some f \<and> f \<noteq> [] \<longrightarrow>
        mset (map fst (list_bookings s st)) = mset (filter (\<lambda>b. status b = f) (bookings s)))"
proof -
  have rooms: "rooms s = catalog" by (simp add: assms(2) run_rooms empty_ledger_def)
  have ok: "ledger_ok s" unfolding assms(2) by (rule ledger_ok_reachable)
  then have refs: "\<forall>b \<in> set (bookings s). room_id b \<in> r_id ` set (rooms s)"
    by (simp add: ledger_ok_def)
  have d: "distinct (map r_id (rooms s))" using assms(1) rooms by simp
  have all: "map fst (join_rooms s (bookings s)) = bookings s"
    using d refs by (rule join_rooms_fst)
  have some: "map fst (join_rooms s (filter P (bookings s))) = filter P (bookings s)" for P
    using d refs by (intro join_rooms_fst) auto
  have m: "mset (map fst (order_by_created_at_desc xs)) = mset (map fst xs)" for xs :: "booking_row list"
    by simp
  show ?thesis
  proof (intro conjI ballI allI impI)
    show "sorted_wrt (\<lambda>x y. x \<ge> y) (map (\<lambda>row. created_at (fst row)) (list_bookings s st))"
      unfolding list_bookings_cases by (rule order_by_descending)
  next
    fix row
    assume "row \<in> set (list_bookings s st)"
    then show "\<exists>r \<in> set catalog. r_id r = room_id (fst row) \<and>
          snd row = (room_type r, room_number r, price r)"
      unfolding list_bookings_cases set_order_by using join_rooms_row rooms by metis
  next
    assume "st = None \<or> st = Some []"
    then have "list_bookings s st = order_by_created_at_desc (join_rooms s (bookings s))"
      by (simp add: list_bookings_cases)
    then show "mset (map fst (list_bookings s st)) = mset (bookings s)"
      using m [of "join_rooms s (bookings s)"] all by simp
  next
    fix f
    assume "st = Some f \<and> f \<noteq> []"
    then have "list_bookings s st =
      order_by_created_at_desc (join_rooms s (filter (\<lambda>b. status b = f) (bookings s)))"
      by (simp add: list_bookings_cases)
    then show "mset (map fst (list_bookings s st)) = mset (filter (\<lambda>b. status b = f) (bookings s))"
      using m [of "join_rooms s (filter (\<lambda>b. status b = f) (bookings s))"]
        some [of "\<lambda>b. status b = f"] by simp
  qed
qed

lemma demo_cancelled_reachable:
  "demo_cancelled =
     run (empty_ledger seed_rooms) (demo_requests @ [Cancel ''2024-01-02T08:00:00'' 1])"
  by (simp add: demo_cancelled_def demo_db_def run_snoc)

text \<open>The small ledger after the cancellation, listed without a filter and with the
  filter \<^verbatim>\<open>cancelled\<close>.\<close>

theorem list_bookings_newest_first_witness:
  "distinct (map r_id seed_rooms) \<and>
   map (\<lambda>row. (b_id (fst row), created_at (fst row), snd row)) (list_bookings demo_cancelled None)
     = [(2, ''2024-01-01T10:30:00.250000'', ''Deluxe'', ''L301'', 4500),
        (1, ''2024-01-01T09:00:00'', ''Single'', ''S101'', 1500)] \<and>
   sorted_wrt (\<lambda>x y. x \<ge> y)
     (map (\<lambda>row. created_at (fst row)) (list_bookings demo_cancelled None)) \<and>
   mset (map fst (list_bookings demo_cancelled None)) = mset (bookings demo_cancelled) \<and>
   map (\<lambda>row. b_id (fst row)) (list_bookings demo_cancelled (Some ''cancelled'')) = [1] \<and>
   mset (map fst (list_bookings demo_cancelled (Some ''cancelled'')))
     = mset (filter (\<lambda>b. status b = ''cancelled'') (bookings demo_cancelled))"
proof -
  have h: "distinct (map r_id seed_rooms)" by code_simp
  have e1: "map (\<lambda>row. (b_id (fst row), created_at (fst row), snd row))
      (list_bookings demo_cancelled None)
     = [(2, ''2024-01-01T10:30:00.250000'', ''Deluxe'', ''L301'', 4500),
        (1, ''2024-01-01T09:00:00'', ''Single'', ''S101'', 1500)]" by code_simp
  have e2: "map (\<lambda>row. b_id (fst row)) (list_bookings demo_cancelled (Some ''cancelled'')) = [1]"
    by code_simp
  note T1 = list_bookings_newest_first [OF h demo_cancelled_reachable, where st = None]
  note T2 = list_bookings_newest_first [OF h demo_cancelled_reachable, where st = "Some ''cancelled''"]
  from T1 have a: "sorted_wrt (\<lambda>x y. x \<ge> y)
     (map (\<lambda>row. created_at (fst row)) (list_bookings demo_cancelled None))"
    and b: "mset (map fst (list_bookings demo_cancelled None)) = mset (bookings demo_cancelled)"
    by blast+
  from T2 have c: "mset (map fst (list_bookings demo_cancelled (Some ''cancelled'')))
     = mset (filter (\<lambda>b. status b = ''cancelled'') (bookings demo_cancelled))"
    by simp
  from h e1 e2 a b c show ?thesis by blast
qed

section \<open>Text order and date order\<close>

text \<open>On zero-padded dates the lexicographic order of the text is the order of
  the dates that \<^verbatim>\<open>parse_date\<close> returns.\<close>

lemma create_booking_two_transactions:
  "create_booking now s guest rt ci co =
     commit_booking now s guest ci co (select_room s rt ci co)"
  unfolding create_booking_def select_room_def commit_booking_def
  by (cases "parse_date ci"; cases "parse_date co"; cases "available_rooms s rt ci co"; simp)

lemma is_digit_val: "is_digit c \<Longrightarrow> digit_val c < 10"
  by (auto simp: is_digit_def digit_val_def less_eq_char_def)

lemma digit_less:
  "is_digit c \<Longrightarrow> is_digit c' \<Longrightarrow> (c < c') = (digit_val c < digit_val c')"
  by (auto simp: is_digit_def digit_val_def less_eq_char_def less_char_def)

lemma digit_eq:
  assumes "is_digit c" and "is_digit c'"
  shows "(c = c') = (digit_val c = digit_val c')"
proof
  assume "c = c'"
  then show "digit_val c = digit_val c'" by simp
next
  assume "digit_val c = digit_val c'"
  then have e: "(of_char c :: nat) - 48 = of_char c' - 48" by (simp add: digit_val_def)
  from assms have "48 \<le> (of_char c :: nat)" and "48 \<le> (of_char c' :: nat)"
    by (auto simp: is_digit_def less_eq_char_def)
  with e have "(of_char c :: nat) = of_char c'" by arith
  then show "c = c'" by simp
qed

lemma digit_not_dash: "is_digit c \<Longrightarrow> c \<noteq> CHR ''-''"
  by (auto simp: is_digit_def)

lemma digit_not_space: "is_digit c \<Longrightarrow> c \<noteq> CHR '' ''"
  by (auto simp: is_digit_def)

lemma lex_step:
  fixes a c p q B :: nat
  assumes "p < B" and "q < B"
  shows "(a * B + p \<le> c * B + q) = (a < c \<or> a = c \<and> p \<le> q)"
proof (cases a c rule: linorder_cases)
  case less
  then have "Suc a \<le> c" by simp
  then have "Suc a * B \<le> c * B" by (rule mult_le_mono1)
  then have "a * B + B \<le> c * B" by simp
  with assms less show ?thesis by simp
next
  case equal
  then show ?thesis by simp
next
  case greater
  then have "Suc c \<le> a" by simp
  then have "Suc c * B \<le> a * B" by (rule mult_le_mono1)
  then have "c * B + B \<le> a * B" by simp
  with assms greater show ?thesis by simp
qed

lemma digits_value_bound: "list_all is_digit cs \<Longrightarrow> digits_value cs < 10 ^ length cs"
proof (induction cs)
  case Nil
  show ?case by simp
next
  case (Cons c cs)
  then have c: "digit_val c < 10" and r: "digits_value cs < 10 ^ length cs"
    by (simp_all add: is_digit_val)
  from c have "Suc (digit_val c) \<le> 10" by simp
  then have "Suc (digit_val c) * 10 ^ length cs \<le> 10 * 10 ^ length cs"
    by (rule mult_le_mono1)
  then have "10 ^ length cs + digit_val c * 10 ^ length cs \<le> 10 * 10 ^ length cs"
    unfolding mult_Suc .
  with r have "digit_val c * 10 ^ length cs + digits_value cs < 10 * 10 ^ length cs"
    by linarith
  then show ?case by simp
qed

lemma digits_le_iff:
  assumes "length xs = length ys" and "list_all is_digit xs" and "list_all is_digit ys"
  shows "(xs \<le> ys) = (digits_value xs \<le> digits_value ys)"
  using assms
proof (induction xs ys rule: list_induct2)
  case Nil
  show ?case by simp
next
  case (Cons x xs y ys)
  then have dx: "is_digit x" and dy: "is_digit y"
    and IH: "(xs \<le> ys) = (digits_value xs \<le> digits_value ys)"
    and ax: "list_all is_digit xs" and ay: "list_all is_digit ys"
    by simp_all
  have bx: "digits_value xs < 10 ^ length xs" using ax by (rule digits_value_bound)
  have "digits_value ys < 10 ^ length ys" using ay by (rule digits_value_bound)
  with Cons.hyps have "digits_value ys < 10 ^ length xs" by simp
  note st = lex_step [OF bx this, of "digit_val x" "digit_val y"]
  have "(x # xs \<le> y # ys) = (x < y \<or> x = y \<and> xs \<le> ys)" by simp
  also have "\<dots> = (digit_val x < digit_val y \<or>
      digit_val x = digit_val y \<and> digits_value xs \<le> digits_value ys)"
    by (simp add: digit_less [OF dx dy] digit_eq [OF dx dy] IH)
  also have "\<dots> = (digit_val x * 10 ^ length xs + digits_value xs
      \<le> digit_val y * 10 ^ length xs + digits_value ys)"
    by (rule st [symmetric])
  finally show ?case using Cons.hyps by simp
qed

lemma date_le_key:
  fixes y m d y' m' d' :: nat
  assumes "m < 100" "d < 100" "m' < 100" "d' < 100"
  shows "((y, m, d) \<le> (y', m', d')) =
         (10000 * y + 100 * m + d \<le> 10000 * y' + 100 * m' + d')"
proof -
  have 1: "(m * 100 + d \<le> m' * 100 + d') = (m < m' \<or> m = m' \<and> d \<le> d')"
    using assms by (intro lex_step)
  have "100 * m + d < 10000" "100 * m' + d' < 10000" using assms by simp_all
  then have 2: "(y * 10000 + (100 * m + d) \<le> y' * 10000 + (100 * m' + d')) =
     (y < y' \<or> y = y' \<and> 100 * m + d \<le> 100 * m' + d')"
    by (intro lex_step)
  have "((y, m, d) \<le> (y', m', d')) = (y < y' \<or> y = y' \<and> (m < m' \<or> m = m' \<and> d \<le> d'))"
    by auto
  also have "\<dots> = (y < y' \<or> y = y' \<and> 100 * m + d \<le> 100 * m' + d')"
    using 1 by (simp add: mult.commute)
  also have "\<dots> = (10000 * y + 100 * m + d \<le> 10000 * y' + 100 * m' + d')"
    using 2 by (simp add: mult.commute add.assoc)
  finally show ?thesis .
qed

lemma iso_date_iff:
  "iso_date s \<longleftrightarrow>
     (\<exists>y1 y2 y3 y4 m1 m2 d1 d2.
        s = [y1, y2, y3, y4, CHR ''-'', m1, m2, CHR ''-'', d1, d2] \<and>
        is_digit y1 \<and> is_digit y2 \<and> is_digit y3 \<and> is_digit y4 \<and>
        is_digit m1 \<and> is_digit m2 \<and> is_digit d1 \<and> is_digit d2)"
  by (cases s rule: iso_date.cases) auto

lemma iso_le_iff:
  assumes "iso_date a" and "iso_date b"
  shows "(a \<le> b) = (iso_value a \<le> iso_value b)"
proof -
  from assms(1) obtain y1 y2 y3 y4 m1 m2 d1 d2 where
    a: "a = [y1, y2, y3, y4, CHR ''-'', m1, m2, CHR ''-'', d1, d2]" and
    da: "is_digit y1" "is_digit y2" "is_digit y3" "is_digit y4"
        "is_digit m1" "is_digit m2" "is_digit d1" "is_digit d2"
    unfolding iso_date_iff by blast
  from assms(2) obtain z1 z2 z3 z4 n1 n2 e1 e2 where
    b: "b = [z1, z2, z3, z4, CHR ''-'', n1, n2, CHR ''-'', e1, e2]" and
    db: "is_digit z1" "is_digit z2" "is_digit z3" "is_digit z4"
        "is_digit n1" "is_digit n2" "is_digit e1" "is_digit e2"
    unfolding iso_date_iff by blast
  let ?xs = "[y1, y2, y3, y4, m1, m2, d1, d2]"
  let ?ys = "[z1, z2, z3, z4, n1, n2, e1, e2]"
  have t: "(a \<le> b) = (?xs \<le> ?ys)" by (simp add: a b)
  have v: "(?xs \<le> ?ys) = (digits_value ?xs \<le> digits_value ?ys)"
    by (rule digits_le_iff) (simp_all add: da db)
  have bm: "10 * digit_val m1 + digit_val m2 < 100" "10 * digit_val d1 + digit_val d2 < 100"
    "10 * digit_val n1 + digit_val n2 < 100" "10 * digit_val e1 + digit_val e2 < 100"
    using da db is_digit_val [of m1] is_digit_val [of m2] is_digit_val [of d1]
      is_digit_val [of d2] is_digit_val [of n1] is_digit_val [of n2] is_digit_val [of e1]
      is_digit_val [of e2] by simp_all
  have kx: "digits_value ?xs =
      10000 * (1000 * digit_val y1 + 100 * digit_val y2 + 10 * digit_val y3 + digit_val y4) +
      100 * (10 * digit_val m1 + digit_val m2) + (10 * digit_val d1 + digit_val d2)"
    by simp
  have ky: "digits_value ?ys =
      10000 * (1000 * digit_val z1 + 100 * digit_val z2 + 10 * digit_val z3 + digit_val z4) +
      100 * (10 * digit_val n1 + digit_val n2) + (10 * digit_val e1 + digit_val e2)"
    by simp
  have k: "(iso_value a \<le> iso_value b) = (digits_value ?xs \<le> digits_value ?ys)"
    unfolding a b iso_value.simps date_le_key [OF bm] kx ky ..
  from t v k show ?thesis by simp
qed

lemma parse_date_head:
  assumes "parse_date s = Some v"
  shows "(v, []) \<in> set (ymd_matches s)"
  using assms by (auto simp: parse_date_def split: list.splits if_splits prod.splits)

lemma parse_date_iso:
  assumes "iso_date s" and "parse_date s = Some v"
  shows "v = iso_value s"
proof -
  from assms(1) obtain y1 y2 y3 y4 m1 m2 d1 d2 where
    s: "s = [y1, y2, y3, y4, CHR ''-'', m1, m2, CHR ''-'', d1, d2]" and
    ds: "is_digit y1" "is_digit y2" "is_digit y3" "is_digit y4"
        "is_digit m1" "is_digit m2" "is_digit d1" "is_digit d2"
    unfolding iso_date_iff by blast
  have nd: "m2 \<noteq> CHR ''-''" "d1 \<noteq> CHR '' ''"
    using ds by (simp_all add: digit_not_dash digit_not_space)
  from parse_date_head [OF assms(2)] show ?thesis
    unfolding s using ds nd
    by (auto simp: ymd_matches_def month_group_def day_group_def two_chars_def one_char_def
          space_digit_def dash_def split: if_splits)
qed

lemma iso_bridge_le:
  assumes "iso_date a" "iso_date b" "parse_date a = Some x" "parse_date b = Some y"
  shows "(a \<le> b) = (x \<le> y)"
  using iso_le_iff [OF assms(1,2)] parse_date_iso [OF assms(1,3)] parse_date_iso [OF assms(2,4)]
  by simp

lemma iso_bridge_less:
  assumes "iso_date a" "iso_date b" "parse_date a = Some x" "parse_date b = Some y"
  shows "(a < b) = (x < y)"
  using iso_bridge_le [OF assms(2,1,4,3)] by (simp add: not_le [symmetric])

section \<open>Dates compared as text\<close>

text \<open>
  Claim C1 says that after every sequence of admissions and cancellations from the
  empty ledger no two active bookings of one room have intersecting stays. The code
  validates the parsed dates but hands the strings as typed to the query, which
  compares them as text. After the two requests below, the second with the dates
  \<^verbatim>\<open>2024-1-12\<close> and \<^verbatim>\<open>2024-1-14\<close>, the ledger holds two active bookings of
  room 5 whose stays, 10 to 15 January and 12 to 14 January, intersect.
\<close>

theorem double_booking_by_unpadded_dates:
  "map (\<lambda>b. (b_id b, room_id b, status b, stay b)) (bookings (run init_db unpadded_requests)) =
     [(1, 5, ''active'', Some ((2024, 1, 10), (2024, 1, 15))),
      (2, 5, ''active'', Some ((2024, 1, 12), (2024, 1, 14)))] \<and>
   intersecting ((2024, 1, 10), (2024, 1, 15)) ((2024, 1, 12), (2024, 1, 14))"
  by code_simp

text \<open>So invariant I1 fails in a ledger the operations build; it holds when every
  date of every request is zero-padded (\<open>no_double_booking_padded\<close> below).\<close>

lemma unpadded_dates_break_invariant: "\<not> no_double_booking (run init_db unpadded_requests)"
  by code_simp

text \<open>
  Claim C2 says that \<^verbatim>\<open>available_rooms\<close> returns exactly the rooms of the type
  that no active booking occupies during the requested interval. With room 5 booked
  from 10 to 15 January, the query for 12 to 14 January written \<^verbatim>\<open>2024-1-12\<close>,
  \<^verbatim>\<open>2024-1-14\<close> (dates that \<^verbatim>\<open>parse_date\<close> accepts) returns room 5; written with
  padding it returns nothing.
\<close>

theorem available_rooms_compares_text:
  "map (\<lambda>b. (room_id b, status b, stay b)) (bookings deluxe_booked) =
     [(5, ''active'', Some ((2024, 1, 10), (2024, 1, 15)))] \<and>
   parse_date ''2024-1-12'' = Some (2024, 1, 12) \<and>
   parse_date ''2024-1-14'' = Some (2024, 1, 14) \<and>
   intersecting ((2024, 1, 10), (2024, 1, 15)) ((2024, 1, 12), (2024, 1, 14)) \<and>
   available_rooms deluxe_booked ''Deluxe'' ''2024-1-12'' ''2024-1-14'' = [room_L301] \<and>
   available_rooms deluxe_booked ''Deluxe'' ''2024-01-12'' ''2024-01-14'' = []"
  by code_simp

text \<open>
  Claim C5 gives the checks of \<^verbatim>\<open>create_booking\<close> in their order, the third
  being that the call fails with \<open>NoAvailability\<close> when no room of the requested type
  is free for the whole interval, and that it admits the booking otherwise. The order
  is as claimed (\<open>create_booking_check_order\<close> above), but the third check asks the
  query that compares text. With the one Deluxe room occupied from 10 to 15 January no
  room is free for 12 to 14 January, and the request written \<^verbatim>\<open>2024-1-12\<close>,
  \<^verbatim>\<open>2024-1-14\<close> is admitted on that room. With the room occupied from 5 January to
  1 February, stored as \<^verbatim>\<open>2024-1-5\<close>, \<^verbatim>\<open>2024-2-1\<close>, the room is free from 1 to
  5 December, and the request for those dates fails with \<open>NoAvailability\<close>.
\<close>

theorem create_booking_ignores_calendar:
  "parse_date ''2024-1-12'' = Some (2024, 1, 12) \<and>
   parse_date ''2024-1-14'' = Some (2024, 1, 14) \<and>
   spec_free_rooms deluxe_booked ''Deluxe'' ((2024, 1, 12), (2024, 1, 14)) = [] \<and>
   fst (create_booking ''2024-01-01T09:05:00'' deluxe_booked ''Bob'' ''Deluxe''
          ''2024-1-12'' ''2024-1-14'') = Inr (2, room_L301) \<and>
   map (\<lambda>b. (room_id b, status b, stay b)) (bookings unpadded_stored) =
     [(5, ''active'', Some ((2024, 1, 5), (2024, 2, 1)))] \<and>
   parse_date ''2024-12-01'' = Some (2024, 12, 1) \<and>
   parse_date ''2024-12-05'' = Some (2024, 12, 5) \<and>
   spec_free_rooms unpadded_stored ''Deluxe'' ((2024, 12, 1), (2024, 12, 5)) = [room_L301] \<and>
   fst (create_booking ''2024-01-01T09:05:00'' unpadded_stored ''Cy'' ''Deluxe''
          ''2024-12-01'' ''2024-12-05'') = Inl NoAvailability"
  by code_simp

section \<open>Admissions that interleave\<close>

text \<open>
  Claim C3 says that the availability check and the insert of \<^verbatim>\<open>create_booking\<close>
  are one atomic unit, so that of two concurrent calls for the last room over
  overlapping intervals exactly one succeeds. When both calls run their check before
  either inserts, both succeed and the room has two active bookings with
  intersecting stays.
\<close>

theorem racing_admits_both:
  "fst (racing init_db racing_first racing_second) = Inr (1, room_L301) \<and>
   fst (snd (racing init_db racing_first racing_second)) = Inr (2, room_L301) \<and>
   map (\<lambda>b. (b_id b, room_id b, status b, stay b))
     (bookings (snd (snd (racing init_db racing_first racing_second)))) =
     [(1, 5, ''active'', Some ((2024, 1, 10), (2024, 1, 15))),
      (2, 5, ''active'', Some ((2024, 1, 12), (2024, 1, 14)))] \<and>
   intersecting ((2024, 1, 10), (2024, 1, 15)) ((2024, 1, 12), (2024, 1, 14))"
  by code_simp

text \<open>Blocking, on zero-padded dates, is intersection of the stays.\<close>

text \<open>Two intervals intersect exactly when some date lies in both.\<close>

lemma intersecting_common_date:
  "intersecting p q \<longleftrightarrow> (\<exists>x. fst p \<le> x \<and> x < snd p \<and> fst q \<le> x \<and> x < snd q)"
proof
  assume "intersecting p q"
  then have "fst p \<le> max (fst p) (fst q) \<and> max (fst p) (fst q) < snd p \<and>
    fst q \<le> max (fst p) (fst q) \<and> max (fst p) (fst q) < snd q"
    by (simp add: intersecting_def)
  then show "\<exists>x. fst p \<le> x \<and> x < snd p \<and> fst q \<le> x \<and> x < snd q" by blast
next
  assume "\<exists>x. fst p \<le> x \<and> x < snd p \<and> fst q \<le> x \<and> x < snd q"
  then obtain x where "fst p \<le> x" "x < snd p" "fst q \<le> x" "x < snd q" by blast
  then show "intersecting p q" by (auto simp: intersecting_def)
qed

lemma intersecting_iff:
  "intersecting (a, c) (a', c') \<longleftrightarrow> a < c \<and> a < c' \<and> a' < c \<and> a' < c'"
  by (auto simp: intersecting_def)

lemma blocking_iso:
  assumes "iso_date (check_in e)" "iso_date (check_out e)" "iso_date ci" "iso_date co"
    and "parse_date (check_in e) = Some ae" "parse_date (check_out e) = Some ce"
    and "parse_date ci = Some a" "parse_date co = Some c"
    and "ae < ce" "a < c"
  shows "blocking ci co e \<longleftrightarrow> status e = ''active'' \<and> intersecting (ae, ce) (a, c)"
proof -
  have 1: "(check_out e \<le> ci) = (ce \<le> a)"
    using assms(2,3,6,7) by (rule iso_bridge_le)
  have 2: "(co \<le> check_in e) = (c \<le> ae)"
    using assms(4,1,8,5) by (rule iso_bridge_le)
  show ?thesis
    unfolding blocking_def intersecting_iff 1 2 using assms(9,10) by auto
qed

text \<open>On a ledger of zero-padded dates with valid ranges, the query with a
  zero-padded request returns the rooms that are free on the calendar, in the order of
  the table.\<close>

lemma blocking_occupies:
  assumes "iso_date (check_in b)" "iso_date (check_out b)" "range_valid b"
    and "iso_date ci" "iso_date co"
    and "parse_date ci = Some a" "parse_date co = Some c" "a < c"
  shows "blocking ci co b \<longleftrightarrow> occupies (a, c) b"
proof -
  from assms(3) obtain ba bc where
    pb: "parse_date (check_in b) = Some ba" "parse_date (check_out b) = Some bc" "ba < bc"
    by (auto simp: range_valid_def stay_def split: option.splits)
  have st: "stay b = Some (ba, bc)" using pb by (simp add: stay_def)
  show ?thesis
    using blocking_iso [OF assms(1,2,4,5) pb(1,2) assms(6,7) pb(3) assms(8)]
    by (simp add: occupies_def st)
qed

lemma available_rooms_padded_eq:
  assumes "iso_ledger s" and "\<forall>b \<in> set (bookings s). range_valid b"
    and "iso_date ci" "iso_date co"
    and "parse_date ci = Some a" "parse_date co = Some c" "a < c"
  shows "available_rooms s rt ci co = spec_free_rooms s rt (a, c)"
proof -
  have eq: "blocking ci co b \<longleftrightarrow> occupies (a, c) b" if "b \<in> set (bookings s)" for b
  proof -
    from assms(1) that have "iso_date (check_in b)" "iso_date (check_out b)"
      by (simp_all add: iso_ledger_def)
    moreover from assms(2) that have "range_valid b" by simp
    ultimately show ?thesis using assms(3-7) by (rule blocking_occupies)
  qed
  have fe: "filter (blocking ci co) (bookings s) = filter (occupies (a, c)) (bookings s)"
    using eq by (intro filter_cong) auto
  have m: "(r_id r \<notin> set (map room_id (filter (occupies (a, c)) (bookings s)))) =
        (\<not> list_ex (\<lambda>b. room_id b = r_id r \<and> occupies (a, c) b) (bookings s))" for r
    by (auto simp: list_ex_iff image_iff)
  show ?thesis by (simp only: available_rooms_def spec_free_rooms_def fe m)
qed

text \<open>
  Claim C3 as amended: let the calls run one after the other, on a ledger whose
  stored dates are zero-padded in ASCII digits with valid ranges, and let the two
  requests carry such dates and intersecting intervals. When \<open>r\<close> is the only room of
  the type free on the calendar for the first interval, and no other room is free for
  the second, the first call is admitted on \<open>r\<close>, the second fails with
  \<open>NoAvailability\<close> and leaves the database as the first left it, and in the final
  ledger exactly one booking of \<open>r\<close> occupies the first interval: the one just
  admitted.
\<close>

theorem sequential_admissions_of_last_room:
  assumes led: "iso_ledger s" "\<forall>b \<in> set (bookings s). range_valid b"
    and iso: "iso_date ci1" "iso_date co1" "iso_date ci2" "iso_date co2"
    and p1: "parse_date ci1 = Some a1" "parse_date co1 = Some c1"
    and p2: "parse_date ci2 = Some a2" "parse_date co2 = Some c2"
    and ov: "intersecting (a1, c1) (a2, c2)"
    and last1: "spec_free_rooms s rt (a1, c1) = [r]"
    and last2: "set (spec_free_rooms s rt (a2, c2)) \<subseteq> {r}"
  shows "\<exists>bid s1.
     create_booking now1 s guest1 rt ci1 co1 = (Inr (bid, r), s1) \<and>
     create_booking now2 s1 guest2 rt ci2 co2 = (Inl NoAvailability, s1) \<and>
     filter (\<lambda>b. room_id b = r_id r \<and> occupies (a1, c1) b) (bookings s1) =
       [\<lparr>b_id = bid, room_id = r_id r, guest_name = guest1, check_in = ci1, check_out = co1,
         status = ''active'', created_at = now1, cancelled_at = None\<rparr>]"
proof -
  let ?n = "\<lparr>b_id = next_booking_id s, room_id = r_id r, guest_name = guest1,
      check_in = ci1, check_out = co1, status = ''active'', created_at = now1,
      cancelled_at = None\<rparr>"
  let ?s1 = "s\<lparr>bookings := bookings s @ [?n]\<rparr>"
  from ov have lt: "a1 < c1" "a1 < c2" "a2 < c1" "a2 < c2"
    by (simp_all add: intersecting_iff)
  have av1: "available_rooms s rt ci1 co1 = [r]"
    using available_rooms_padded_eq [OF led iso(1,2) p1 lt(1)] last1 by simp
  have av2: "set (available_rooms s rt ci2 co2) \<subseteq> {r}"
    using available_rooms_padded_eq [OF led iso(3,4) p2 lt(4)] last2 by simp
  have t21: "ci2 < co1" using iso_bridge_less [OF iso(3,2) p2(1) p1(2)] lt(3) by simp
  have t12: "ci1 < co2" using iso_bridge_less [OF iso(1,4) p1(1) p2(2)] lt(2) by simp
  have c1: "create_booking now1 s guest1 rt ci1 co1 = (Inr (next_booking_id s, r), ?s1)"
    using p1 lt(1) av1 by (simp add: create_booking_cases)
  have b2: "blocking ci2 co2 ?n" using t21 t12 by (simp add: blocking_def not_le)
  have none: "available_rooms ?s1 rt ci2 co2 = []"
  proof (rule ccontr)
    assume "available_rooms ?s1 rt ci2 co2 \<noteq> []"
    then obtain x where x: "x \<in> set (available_rooms ?s1 rt ci2 co2)"
      by (meson hd_in_set)
    then have "x \<in> set (available_rooms s rt ci2 co2)"
      by (simp add: available_rooms_iff)
    with av2 have "x = r" by blast
    with x b2 show False by (simp add: available_rooms_iff)
  qed
  have c2: "create_booking now2 ?s1 guest2 rt ci2 co2 = (Inl NoAvailability, ?s1)"
    using p2 lt(4) none by (simp add: create_booking_cases)
  have "r \<in> set (spec_free_rooms s rt (a1, c1))" using last1 by simp
  then have "\<forall>b \<in> set (bookings s). \<not> (room_id b = r_id r \<and> occupies (a1, c1) b)"
    by (simp add: spec_free_rooms_def list_ex_iff)
  then have old: "filter (\<lambda>b. room_id b = r_id r \<and> occupies (a1, c1) b) (bookings s) = []"
    by (simp add: filter_empty_conv)
  have "stay ?n = Some (a1, c1)" using p1 by (simp add: stay_def)
  then have "occupies (a1, c1) ?n" using lt(1) by (simp add: occupies_def intersecting_iff)
  with old have f:
    "filter (\<lambda>b. room_id b = r_id r \<and> occupies (a1, c1) b) (bookings ?s1) = [?n]"
    by simp
  from c1 c2 f show ?thesis by blast
qed

text \<open>On the small ledger, where room S101 is taken from 10 to 12 January: two calls
  for a Single room, for 11 to 13 and for 11 to 12 January. Room S102 is the only one
  free for either; the first call gets it and the second is refused.\<close>

theorem sequential_admissions_of_last_room_witness:
  "iso_ledger demo_db \<and> list_all range_valid (bookings demo_db) \<and>
   iso_date ''2024-01-11'' \<and> iso_date ''2024-01-13'' \<and> iso_date ''2024-01-12'' \<and>
   parse_date ''2024-01-11'' = Some (2024, 1, 11) \<and>
   parse_date ''2024-01-13'' = Some (2024, 1, 13) \<and>
   parse_date ''2024-01-12'' = Some (2024, 1, 12) \<and>
   intersecting ((2024, 1, 11), (2024, 1, 13)) ((2024, 1, 11), (2024, 1, 12)) \<and>
   spec_free_rooms demo_db ''Single'' ((2024, 1, 11), (2024, 1, 13)) = [room_S102] \<and>
   set (spec_free_rooms demo_db ''Single'' ((2024, 1, 11), (2024, 1, 12))) \<subseteq> {room_S102} \<and>
   (\<exists>bid s1.
     create_booking ''2024-01-03T09:00:00'' demo_db ''Cy'' ''Single'' ''2024-01-11'' ''2024-01-13''
       = (Inr (bid, room_S102), s1) \<and>
     create_booking ''2024-01-03T09:00:01'' s1 ''Di'' ''Single'' ''2024-01-11'' ''2024-01-12''
       = (Inl NoAvailability, s1) \<and>
     filter (\<lambda>b. room_id b = r_id room_S102 \<and> occupies ((2024, 1, 11), (2024, 1, 13)) b)
         (bookings s1) =
       [\<lparr>b_id = bid, room_id = r_id room_S102, guest_name = ''Cy'',
         check_in = ''2024-01-11'', check_out = ''2024-01-13'', status = ''active'',
         created_at = ''2024-01-03T09:00:00'', cancelled_at = None\<rparr>])"
proof -
  have l1: "iso_ledger demo_db" by code_simp
  have l2: "list_all range_valid (bookings demo_db)" by code_simp
  then have l2': "\<forall>b \<in> set (bookings demo_db). range_valid b" by (simp add: list_all_iff)
  have i: "iso_date ''2024-01-11''" "iso_date ''2024-01-13''" "iso_date ''2024-01-12''"
    by code_simp+
  have p: "parse_date ''2024-01-11'' = Some (2024, 1, 11)"
    "parse_date ''2024-01-13'' = Some (2024, 1, 13)"
    "parse_date ''2024-01-12'' = Some (2024, 1, 12)" by code_simp+
  have ov: "intersecting ((2024, 1, 11), (2024, 1, 13)) ((2024, 1, 11), (2024, 1, 12))"
    by code_simp
  have f1: "spec_free_rooms demo_db ''Single'' ((2024, 1, 11), (2024, 1, 13)) = [room_S102]"
    by code_simp
  have f2: "set (spec_free_rooms demo_db ''Single'' ((2024, 1, 11), (2024, 1, 12))) \<subseteq> {room_S102}"
    by code_simp
  note T = sequential_admissions_of_last_room
    [OF l1 l2' i(1) i(2) i(1) i(3) p(1) p(2) p(1) p(3) ov f1 f2,
     where ?now1.0 = "''2024-01-03T09:00:00''" and ?guest1.0 = "''Cy''"
       and ?now2.0 = "''2024-01-03T09:00:01''" and ?guest2.0 = "''Di''"]
  from l1 l2 i p ov f1 f2 T show ?thesis by (intro conjI)
qed

section \<open>Zero-padded requests\<close>

text \<open>When every request carries zero-padded dates, so does the ledger, the query
  is the interval test on dates, and no room is double booked.\<close>

lemma iso_ledger_step:
  assumes "iso_ledger s" and "iso_request r"
  shows "iso_ledger (step s r)"
proof -
  from step_bookings [of s r]
  consider (same) "bookings (step s r) = bookings s"
    | (ins) now guest rt ci co n where "r = Create now guest rt ci co"
        "bookings (step s r) = bookings s @ [n]" "check_in n = ci" "check_out n = co"
    | (canc) now i where "bookings (step s r) = map (set_cancelled now i) (bookings s)"
    by force
  then show ?thesis
  proof cases
    case same
    with assms(1) show ?thesis by (simp add: iso_ledger_def)
  next
    case ins
    with assms show ?thesis by (auto simp: iso_ledger_def)
  next
    case canc
    with assms(1) show ?thesis by (auto simp: iso_ledger_def)
  qed
qed

lemma iso_ledger_run:
  assumes "iso_ledger s" and "list_all iso_request reqs"
  shows "iso_ledger (run s reqs)"
  using assms(2)
proof (induction reqs rule: rev_induct)
  case Nil
  show ?case using assms(1) by (simp add: run_Nil)
next
  case (snoc r reqs)
  then show ?case by (simp add: run_snoc iso_ledger_step)
qed

lemma iso_ledger_no_double_booking:
  assumes "ledger_ok s" and "iso_ledger s"
  shows "no_double_booking s"
  unfolding no_double_booking_def
proof (intro ballI impI)
  fix x y
  assume x: "x \<in> set (bookings s)" and y: "y \<in> set (bookings s)"
    and h: "b_id x \<noteq> b_id y \<and> room_id x = room_id y \<and>
            status x = ''active'' \<and> status y = ''active''"
  from assms(1) x y h have td: "text_disjoint x y"
    unfolding ledger_ok_def no_text_overlap_def by blast
  from assms(1) x y have "range_valid x" "range_valid y" by (simp_all add: ledger_ok_def)
  then obtain xa xc ya yc where
    px: "parse_date (check_in x) = Some xa" "parse_date (check_out x) = Some xc" "xa < xc" and
    py: "parse_date (check_in y) = Some ya" "parse_date (check_out y) = Some yc" "ya < yc"
    by (auto simp: range_valid_iff)
  from assms(2) x y have ix: "iso_date (check_in x)" "iso_date (check_out x)"
    and iy: "iso_date (check_in y)" "iso_date (check_out y)"
    by (simp_all add: iso_ledger_def)
  have 1: "(check_out x \<le> check_in y) = (xc \<le> ya)"
    using ix(2) iy(1) px(2) py(1) by (rule iso_bridge_le)
  have 2: "(check_out y \<le> check_in x) = (yc \<le> xa)"
    using iy(2) ix(1) py(2) px(1) by (rule iso_bridge_le)
  from td have "xc \<le> ya \<or> yc \<le> xa" by (simp add: text_disjoint_def 1 2)
  then show "\<not> stays_overlap x y"
    using px py by (auto simp: stays_overlap_def stay_def intersecting_iff)
qed

lemma no_double_booking_padded:
  assumes "list_all iso_request reqs"
  shows "no_double_booking (run (empty_ledger catalog) reqs)"
proof (rule iso_ledger_no_double_booking)
  show "ledger_ok (run (empty_ledger catalog) reqs)" by (rule ledger_ok_reachable)
  have "iso_ledger (empty_ledger catalog)" by (simp add: iso_ledger_def empty_ledger_def)
  then show "iso_ledger (run (empty_ledger catalog) reqs)" using assms by (rule iso_ledger_run)
qed

lemma available_rooms_padded:
  assumes "iso_ledger s" and "\<forall>b \<in> set (bookings s). range_valid b"
    and "iso_date ci" "iso_date co"
    and "parse_date ci = Some a" "parse_date co = Some c" "a < c"
  shows "r \<in> set (available_rooms s rt ci co) \<longleftrightarrow>
     r \<in> set (rooms s) \<and> room_type r = rt \<and>
     (\<forall>b \<in> set (bookings s). room_id b = r_id r \<and> status b = ''active'' \<longrightarrow>
        (\<forall>p. stay b = Some p \<longrightarrow> \<not> intersecting p (a, c)))"
proof -
  have "blocking ci co b \<longleftrightarrow>
      status b = ''active'' \<and> \<not> (\<forall>p. stay b = Some p \<longrightarrow> \<not> intersecting p (a, c))"
    if b: "b \<in> set (bookings s)" for b
  proof -
    from assms(2) b obtain ba bc where
      pb: "parse_date (check_in b) = Some ba" "parse_date (check_out b) = Some bc" "ba < bc"
      by (auto simp: range_valid_iff)
    from assms(1) b have ib: "iso_date (check_in b)" "iso_date (check_out b)"
      by (simp_all add: iso_ledger_def)
    have "stay b = Some (ba, bc)" using pb by (simp add: stay_def)
    with blocking_iso [OF ib assms(3,4) pb(1,2) assms(5,6) pb(3) assms(7)]
    show ?thesis by simp
  qed
  then show ?thesis unfolding available_rooms_iff by blast
qed

section \<open>Scenarios of the specification\<close>

text \<open>Scenarios 1 and 2 of the specification on the seeded database: two bookings of
  a Single room for the same dates take rooms 1 and 2 and a third is refused; a
  booking that begins on the day another ends shares its room.\<close>

lemma scenario_two_singles_then_full:
  "map (\<lambda>b. (b_id b, room_id b, status b))
     (bookings (run init_db
       [Create ''t1'' ''Ann'' ''Single'' ''2024-01-10'' ''2024-01-12'',
        Create ''t2'' ''Bob'' ''Single'' ''2024-01-10'' ''2024-01-12''])) =
     [(1, 1, ''active''), (2, 2, ''active'')] \<and>
   fst (create_booking ''t3''
     (run init_db
       [Create ''t1'' ''Ann'' ''Single'' ''2024-01-10'' ''2024-01-12'',
        Create ''t2'' ''Bob'' ''Single'' ''2024-01-10'' ''2024-01-12''])
     ''Cy'' ''Single'' ''2024-01-10'' ''2024-01-12'') = Inl NoAvailability"
  by code_simp

lemma scenario_boundary_touch:
  "map (\<lambda>b. (b_id b, room_id b, check_in b, check_out b, status b))
     (bookings (run init_db
       [Create ''t1'' ''Ann'' ''Single'' ''2024-01-10'' ''2024-01-15'',
        Create ''t2'' ''Bob'' ''Single'' ''2024-01-15'' ''2024-01-18''])) =
     [(1, 1, ''2024-01-10'', ''2024-01-15'', ''active''),
      (2, 1, ''2024-01-15'', ''2024-01-18'', ''active'')]"
  by code_simp

end
